theory Spec2Isabelle
  imports Main "HOL-Library.Word" "HOL-Library.AList"
begin

unbundle bit_operations_syntax

section \<open>The remote process and the MemoryManager\<close>

text \<open>
  The embedding follows \<^verbatim>\<open>stat_randomizer_gui.py\<close>. Python integers are \<open>int\<close>,
  bytes objects are lists of 8-bit words. The \<^verbatim>\<open>pymem\<close> library is outside the
  repository, so the process behind a \<^verbatim>\<open>pymem.Pymem\<close> handle is a record: what each
  address holds, and whether \<^verbatim>\<open>ReadProcessMemory\<close> / \<^verbatim>\<open>WriteProcessMemory\<close> succeed
  there. A failing call raises in Python; the wrappers of \<^verbatim>\<open>MemoryManager\<close> catch it.
\<close>

type_synonym byte = "8 word"

record Pymem =
  content :: "int \<Rightarrow> byte"
  readable :: "int \<Rightarrow> bool"
  writable :: "int \<Rightarrow> bool"
  pm_process_id :: int

text \<open>
  \<^verbatim>\<open>last_error\<close> holds a formatted message in the source; the model keeps which
  message it is and the values formatted into it (the text of a caught exception is left
  out). \<open>NoError\<close> is the empty string.
\<close>

datatype error_msg =
    NoError
  | PymemNotInstalled
  | NoModuleInfo string
  | CouldNotOpen
  | ErrorAttaching string
  | ProcessNotFoundTried "string list"
  | ReadFailedAt int
  | WriteFailedAt int
  | CannotScan
  | PatternNotFound
  | PatternScanFailed
  | ManualScanFailed

record MemoryManager =
  pm :: "Pymem option"
  module_base :: int
  module_size :: int
  process_id :: int
  process_name :: string
  last_error :: error_msg

definition ELDEN_RING_PROCESSES :: "string list" where
  "ELDEN_RING_PROCESSES = [''eldenring.exe'', ''start_protected_game.exe'']"

text \<open>\<^verbatim>\<open>MemoryManager.__init__\<close>.\<close>

definition init :: MemoryManager where
  "init = \<lparr>pm = None, module_base = 0, module_size = 0, process_id = 0,
            process_name = [], last_error = NoError\<rparr>"

definition is_attached :: "MemoryManager \<Rightarrow> bool" where
  "is_attached mm = (pm mm \<noteq> None)"

subsection \<open>attach and detach\<close>

text \<open>
  What the operating system answers: \<^verbatim>\<open>pymem.Pymem(name)\<close> returns a handle or raises
  \<^verbatim>\<open>ProcessNotFound\<close>, \<^verbatim>\<open>CouldNotOpenProcess\<close> or something else;
  \<^verbatim>\<open>pymem.process.module_from_name\<close> returns a module (\<^verbatim>\<open>lpBaseOfDll\<close>,
  \<^verbatim>\<open>SizeOfImage\<close>), returns \<^verbatim>\<open>None\<close>, or raises.
\<close>

datatype open_result = Opened Pymem | ProcessNotFound | CouldNotOpenProcess | OtherException

datatype module_result = Module int int | NoModule | ModuleException

record system =
  PYMEM_AVAILABLE :: bool
  open_process :: "string \<Rightarrow> open_result"
  module_from_name :: "Pymem \<Rightarrow> string \<Rightarrow> module_result"

text \<open>
  \<^verbatim>\<open>detach\<close>: \<^verbatim>\<open>close_process\<close> may raise, which is swallowed; the handle is dropped
  in either case and the fields are reset. \<^verbatim>\<open>last_error\<close> is not touched.
\<close>

definition detach :: "MemoryManager \<Rightarrow> MemoryManager" where
  "detach mm = mm\<lparr>pm := None, module_base := 0, module_size := 0, process_id := 0,
                    process_name := []\<rparr>"

text \<open>
  The \<^verbatim>\<open>for name in process_names\<close> loop of \<^verbatim>\<open>attach\<close>. \<open>tried\<close> is the whole
  candidate list, for the message after the loop. When \<^verbatim>\<open>Pymem(name)\<close> raises, the
  assignment to \<^verbatim>\<open>self.pm\<close> does not happen. When the module is \<^verbatim>\<open>None\<close> the loop
  body ends after setting \<^verbatim>\<open>last_error\<close> and the next candidate is tried.
\<close>

fun attach_loop :: "system \<Rightarrow> string list \<Rightarrow> string list \<Rightarrow> MemoryManager \<Rightarrow> bool \<times> MemoryManager" where
  "attach_loop sys tried [] mm = (False, mm\<lparr>last_error := ProcessNotFoundTried tried\<rparr>)"
| "attach_loop sys tried (name # rest) mm =
     (case open_process sys name of
        ProcessNotFound \<Rightarrow> attach_loop sys tried rest mm
      | CouldNotOpenProcess \<Rightarrow> (False, mm\<lparr>last_error := CouldNotOpen\<rparr>)
      | OtherException \<Rightarrow> attach_loop sys tried rest (mm\<lparr>last_error := ErrorAttaching name\<rparr>)
      | Opened p \<Rightarrow>
          (let mm1 = mm\<lparr>pm := Some p, process_name := name, process_id := pm_process_id p\<rparr> in
           case module_from_name sys p name of
             Module lpBaseOfDll SizeOfImage \<Rightarrow>
               (True, mm1\<lparr>module_base := lpBaseOfDll, module_size := SizeOfImage\<rparr>)
           | NoModule \<Rightarrow> attach_loop sys tried rest (mm1\<lparr>last_error := NoModuleInfo name\<rparr>)
           | ModuleException \<Rightarrow>
               attach_loop sys tried rest (mm1\<lparr>last_error := ErrorAttaching name\<rparr>)))"

text \<open>
  \<^verbatim>\<open>attach(process_name=None)\<close>. The argument is \<open>None\<close> or a string; Python's
  \<^verbatim>\<open>if process_name\<close> is false for \<open>None\<close> and for the empty string.
\<close>

definition attach :: "system \<Rightarrow> MemoryManager \<Rightarrow> string option \<Rightarrow> bool \<times> MemoryManager" where
  "attach sys mm process_name_arg =
     (if \<not> PYMEM_AVAILABLE sys then (False, mm\<lparr>last_error := PymemNotInstalled\<rparr>)
      else
        (let mm0 = (if is_attached mm then detach mm else mm);
             process_names =
               (case process_name_arg of
                  None \<Rightarrow> ELDEN_RING_PROCESSES
                | Some n \<Rightarrow> if n \<noteq> [] then [n] @ ELDEN_RING_PROCESSES else ELDEN_RING_PROCESSES)
         in attach_loop sys process_names process_names mm0))"

subsection \<open>Reading and writing\<close>

text \<open>
  \<^verbatim>\<open>pm.read_bytes(address, size)\<close>: one \<^verbatim>\<open>ReadProcessMemory\<close> call, which succeeds
  only if the whole range can be read. \<open>None\<close> is the raised exception; a negative
  size raises too (no buffer of that size can be made).
\<close>

definition pm_read_bytes :: "Pymem \<Rightarrow> int \<Rightarrow> int \<Rightarrow> byte list option" where
  "pm_read_bytes p address sz =
     (if sz < 0 then None
      else if list_all (\<lambda>k. readable p (address + int k)) [0..<nat sz]
      then Some (map (\<lambda>k. content p (address + int k)) [0..<nat sz])
      else None)"

definition read_bytes :: "MemoryManager \<Rightarrow> int \<Rightarrow> int \<Rightarrow> byte list \<times> MemoryManager" where
  "read_bytes mm address sz =
     (case pm mm of
        None \<Rightarrow> ([], mm)
      | Some p \<Rightarrow>
          (case pm_read_bytes p address sz of
             Some bs \<Rightarrow> (bs, mm)
           | None \<Rightarrow> ([], mm\<lparr>last_error := ReadFailedAt address\<rparr>)))"

text \<open>Little-endian decoding, as \<^verbatim>\<open>struct.unpack('<i', ...)\<close> and the \<^verbatim>\<open>ctypes\<close> reads do.\<close>

definition le_uint :: "byte list \<Rightarrow> int" where
  "le_uint bs = foldr (\<lambda>b acc. uint b + 256 * acc) bs 0"

definition pm_read_int :: "Pymem \<Rightarrow> int \<Rightarrow> int option" where
  "pm_read_int p address =
     map_option (\<lambda>bs. sint (word_of_int (le_uint bs) :: 32 word)) (pm_read_bytes p address 4)"

definition pm_read_longlong :: "Pymem \<Rightarrow> int \<Rightarrow> int option" where
  "pm_read_longlong p address =
     map_option (\<lambda>bs. sint (word_of_int (le_uint bs) :: 64 word)) (pm_read_bytes p address 8)"

definition read_int64 :: "MemoryManager \<Rightarrow> int \<Rightarrow> int" where
  "read_int64 mm address =
     (case pm mm of
        None \<Rightarrow> 0
      | Some p \<Rightarrow> (case pm_read_longlong p address of Some v \<Rightarrow> v | None \<Rightarrow> 0))"

definition read_int32 :: "MemoryManager \<Rightarrow> int \<Rightarrow> int" where
  "read_int32 mm address =
     (case pm mm of
        None \<Rightarrow> 0
      | Some p \<Rightarrow> (case pm_read_int p address of Some v \<Rightarrow> v | None \<Rightarrow> 0))"

text \<open>\<^verbatim>\<open>read_byte\<close>: a failed read is swallowed and 0 is returned.\<close>

definition read_byte :: "MemoryManager \<Rightarrow> int \<Rightarrow> int" where
  "read_byte mm address =
     (case pm mm of
        None \<Rightarrow> 0
      | Some p \<Rightarrow> if readable p address then uint (content p address) else 0)"

text \<open>\<^verbatim>\<open>write_byte\<close>: writes \<^verbatim>\<open>value & 0xFF\<close>; returns whether the write went through.\<close>

definition write_byte :: "MemoryManager \<Rightarrow> int \<Rightarrow> int \<Rightarrow> bool \<times> MemoryManager" where
  "write_byte mm address v =
     (case pm mm of
        None \<Rightarrow> (False, mm)
      | Some p \<Rightarrow>
          if writable p address
          then (True, mm\<lparr>pm := Some (p\<lparr>content := (content p)(address := word_of_int (v AND 255))\<rparr>)\<rparr>)
          else (False, mm\<lparr>last_error := WriteFailedAt address\<rparr>))"

subsection \<open>The manual chunked scan\<close>

text \<open>
  The pattern string is split at spaces. A part \<^verbatim>\<open>'??'\<close> is \<open>Wildcard\<close>; any other part
  goes through \<^verbatim>\<open>int(part, 16)\<close>, which gives a value (\<open>Hex\<close>) or raises \<^verbatim>\<open>ValueError\<close>
  (\<open>Invalid\<close>). Parsing raises at the first invalid part.
\<close>

datatype part = Wildcard | Hex int | Invalid

fun parse_pattern :: "part list \<Rightarrow> (int list \<times> bool list) option" where
  "parse_pattern [] = Some ([], [])"
| "parse_pattern (Invalid # parts) = None"
| "parse_pattern (Wildcard # parts) =
     map_option (\<lambda>(pattern_bytes, msk). (0 # pattern_bytes, False # msk)) (parse_pattern parts)"
| "parse_pattern (Hex v # parts) =
     map_option (\<lambda>(pattern_bytes, msk). (v # pattern_bytes, True # msk)) (parse_pattern parts)"

text \<open>
  The inner \<^verbatim>\<open>for j\<close> loop: \<open>found\<close> stays true unless some masked position differs.
\<close>

definition found_at :: "int list \<Rightarrow> bool list \<Rightarrow> byte list \<Rightarrow> nat \<Rightarrow> bool" where
  "found_at pattern_bytes msk chunk_bytes i =
     list_all (\<lambda>j. \<not> (msk ! j \<and> uint (chunk_bytes ! (i + j)) \<noteq> pattern_bytes ! j))
       [0..<length pattern_bytes]"

text \<open>Python's slice \<^verbatim>\<open>xs[a:b]\<close>: negative bounds count from the end, both are clamped.\<close>

definition py_slice :: "'a list \<Rightarrow> int \<Rightarrow> int \<Rightarrow> 'a list" where
  "py_slice xs a b =
     (let n = int (length xs);
          lo = (if a < 0 then max (a + n) 0 else min a n);
          hi = (if b < 0 then max (b + n) 0 else min b n)
      in take (nat (hi - lo)) (drop (nat lo) xs))"

text \<open>\<^verbatim>\<open>struct.unpack('<i', bs)[0]\<close>; raises (\<open>None\<close>) unless there are exactly 4 bytes.\<close>

definition unpack_i32_le :: "byte list \<Rightarrow> int option" where
  "unpack_i32_le bs =
     (if length bs = 4 then Some (sint (word_of_int (le_uint bs) :: 32 word)) else None)"

text \<open>
  How the \<^verbatim>\<open>while\<close> loop is left: a match (the pattern address that is printed and the
  absolute address that is returned), the loop condition becoming false, or an exception.
\<close>

datatype loop_exit = Matched int int | Exhausted | Raised

text \<open>
  The \<^verbatim>\<open>for i in range(search_end)\<close> loop over one chunk: \<open>None\<close> when it ends without
  a match, otherwise how the function is left at the first match.
\<close>

definition search_chunk ::
  "int list \<Rightarrow> bool list \<Rightarrow> int \<Rightarrow> int \<Rightarrow> int \<Rightarrow> byte list \<Rightarrow> loop_exit option" where
  "search_chunk pattern_bytes msk rel_offset additional chunk_address chunk_bytes =
     (let search_end = length chunk_bytes - length pattern_bytes + 1 in
      case find (found_at pattern_bytes msk chunk_bytes) [0..<search_end] of
        None \<Rightarrow> None
      | Some i \<Rightarrow>
          (let pattern_address = chunk_address + int i;
               relative_offset_bytes =
                 py_slice chunk_bytes (int i + rel_offset) (int i + rel_offset + 4)
           in case unpack_i32_le relative_offset_bytes of
                None \<Rightarrow> Some Raised
              | Some relative_offset_val \<Rightarrow>
                  Some (Matched pattern_address
                          (pattern_address + additional + relative_offset_val))))"

text \<open>
  The \<^verbatim>\<open>while offset < self.module_size\<close> loop. It need not terminate, so it is a
  partial function: \<open>None\<close> means the loop runs forever. The chunk size is a parameter
  here; the source fixes it to \<open>CHUNK_SIZE\<close>.
\<close>

partial_function (option) scan_loop ::
  "int \<Rightarrow> int list \<Rightarrow> bool list \<Rightarrow> int \<Rightarrow> int \<Rightarrow> MemoryManager \<Rightarrow> int
     \<Rightarrow> (loop_exit \<times> MemoryManager) option" where
  "scan_loop chunk_size pattern_bytes msk rel_offset additional mm offset =
     (if offset < module_size mm then
        (let remaining = module_size mm - offset;
             current_chunk_size = min chunk_size remaining;
             overlap = int (length pattern_bytes) - 1
         in case read_bytes mm (module_base mm + offset) current_chunk_size of
              (chunk_bytes, mm') \<Rightarrow>
                if chunk_bytes = [] \<or> length chunk_bytes < length pattern_bytes then
                  scan_loop chunk_size pattern_bytes msk rel_offset additional mm'
                    (offset + (current_chunk_size - overlap))
                else
                  (case search_chunk pattern_bytes msk rel_offset additional
                          (module_base mm + offset) chunk_bytes of
                     Some r \<Rightarrow> Some (r, mm')
                   | None \<Rightarrow>
                       scan_loop chunk_size pattern_bytes msk rel_offset additional mm'
                         (offset + (current_chunk_size - overlap))))
      else Some (Exhausted, mm))"

definition CHUNK_SIZE :: int where
  "CHUNK_SIZE = 4 * 1024 * 1024"

text \<open>
  \<^verbatim>\<open>_manual_scan_aob\<close> with the chunk size as a parameter: the returned integer and the
  manager afterwards. Every exception is caught by the outer \<^verbatim>\<open>try\<close>.
\<close>

definition manual_scan_aob_chunked ::
  "int \<Rightarrow> MemoryManager \<Rightarrow> part list \<Rightarrow> int \<Rightarrow> int \<Rightarrow> (int \<times> MemoryManager) option" where
  "manual_scan_aob_chunked chunk_size mm pattern rel_offset additional =
     (case parse_pattern pattern of
        None \<Rightarrow> Some (0, mm\<lparr>last_error := ManualScanFailed\<rparr>)
      | Some (pattern_bytes, msk) \<Rightarrow>
          (case scan_loop chunk_size pattern_bytes msk rel_offset additional mm 0 of
             None \<Rightarrow> None
           | Some (Matched pattern_address absolute_address, mm') \<Rightarrow> Some (absolute_address, mm')
           | Some (Exhausted, mm') \<Rightarrow> Some (0, mm'\<lparr>last_error := PatternNotFound\<rparr>)
           | Some (Raised, mm') \<Rightarrow> Some (0, mm'\<lparr>last_error := ManualScanFailed\<rparr>)))"

definition manual_scan_aob ::
  "MemoryManager \<Rightarrow> part list \<Rightarrow> int \<Rightarrow> int \<Rightarrow> (int \<times> MemoryManager) option" where
  "manual_scan_aob = manual_scan_aob_chunked CHUNK_SIZE"

subsection \<open>scan_aob\<close>

text \<open>
  What \<^verbatim>\<open>pymem.pattern.pattern_scan_module\<close> (with the \<^verbatim>\<open>module_from_name\<close> call in
  its arguments) does: it raises, or returns an address or \<^verbatim>\<open>None\<close>.
\<close>

datatype accel_result = AccelRaises | AccelReturns "int option"

text \<open>
  \<^verbatim>\<open>scan_aob\<close>. \<^verbatim>\<open>if result\<close> is false for \<^verbatim>\<open>None\<close> and for 0. The \<^verbatim>\<open>except\<close>
  branch, the only place that calls the manual scan, is reached when the accelerated
  scan raises or when \<^verbatim>\<open>pm.read_int\<close> raises.
\<close>

definition scan_aob ::
  "accel_result \<Rightarrow> MemoryManager \<Rightarrow> part list \<Rightarrow> int \<Rightarrow> int \<Rightarrow> (int \<times> MemoryManager) option" where
  "scan_aob pattern_scan_module mm pattern rel_offset additional =
     (case pm mm of
        None \<Rightarrow> Some (0, mm\<lparr>last_error := CannotScan\<rparr>)
      | Some p \<Rightarrow>
          if module_size mm = 0 then Some (0, mm\<lparr>last_error := CannotScan\<rparr>)
          else
            (case pattern_scan_module of
               AccelRaises \<Rightarrow>
                 manual_scan_aob (mm\<lparr>last_error := PatternScanFailed\<rparr>) pattern rel_offset additional
             | AccelReturns None \<Rightarrow> Some (0, mm\<lparr>last_error := PatternNotFound\<rparr>)
             | AccelReturns (Some result) \<Rightarrow>
                 if result \<noteq> 0 then
                   (case pm_read_int p (result + rel_offset) of
                      Some relative_offset \<Rightarrow> Some (result + additional + relative_offset, mm)
                    | None \<Rightarrow>
                        manual_scan_aob (mm\<lparr>last_error := PatternScanFailed\<rparr>)
                          pattern rel_offset additional)
                 else Some (0, mm\<lparr>last_error := PatternNotFound\<rparr>)))"

section \<open>Unlocking graces\<close>

text \<open>
  \<^verbatim>\<open>EldenRingModTool\<close>, as far as the grace tab uses it: the memory manager, the scanned
  address \<^verbatim>\<open>event_flag_man\<close> and the check boxes, a dictionary from grace name to a
  boolean variable, kept in insertion order.
\<close>

record EldenRingModTool =
  memory :: MemoryManager
  event_flag_man :: int
  grace_checkboxes :: "(string \<times> bool) list"

text \<open>
  \<^verbatim>\<open>KNOWN_GRACES\<close> maps a grace name to its (offset, bit) pair. The functions take the
  table as their first argument; these are the first entries of the source's
  \<^verbatim>\<open>"Limgrave"\<close> region.
\<close>

definition LIMGRAVE_GRACES :: "(string \<times> int \<times> nat) list" where
  "LIMGRAVE_GRACES =
     [(''The First Step'', (0xCBE, 2)),
      (''Church of Elleh'', (0xCBE, 3)),
      (''Gatefront'', (0xCBF, 0)),
      (''Agheel Lake South'', (0xCBF, 5)),
      (''Seaside Ruins'', (0xCC0, 6))]"

definition get_event_flag_base :: "EldenRingModTool \<Rightarrow> int" where
  "get_event_flag_base tool =
     (if event_flag_man tool = 0 then 0
      else
        (let ptr = read_int64 (memory tool) (event_flag_man tool) in
         if ptr = 0 then 0 else read_int64 (memory tool) (ptr + 0x28)))"

text \<open>
  The \<^verbatim>\<open>for grace_name, var in self.grace_checkboxes.items()\<close> loop of
  \<^verbatim>\<open>unlock_selected_graces\<close>, with the list \<open>unlocked\<close> built so far.
\<close>

fun unlock_loop ::
  "(string \<rightharpoonup> int \<times> nat) \<Rightarrow> int \<Rightarrow> (string \<times> bool) list \<Rightarrow> MemoryManager \<Rightarrow> string list
     \<Rightarrow> string list \<times> MemoryManager" where
  "unlock_loop KNOWN_GRACES flag_base [] mm unlocked = (unlocked, mm)"
| "unlock_loop KNOWN_GRACES flag_base ((grace_name, var) # rest) mm unlocked =
     (if var \<and> grace_name \<in> dom KNOWN_GRACES then
        (case the (KNOWN_GRACES grace_name) of
           (offset, bit_index) \<Rightarrow>
             (let addr = flag_base + offset;
                  current = read_byte mm addr;
                  new_value = current OR push_bit bit_index 1
              in case write_byte mm addr new_value of
                   (ok, mm') \<Rightarrow>
                     unlock_loop KNOWN_GRACES flag_base rest mm'
                       (if ok then unlocked @ [grace_name] else unlocked)))
      else unlock_loop KNOWN_GRACES flag_base rest mm unlocked)"

text \<open>
  The message boxes of \<^verbatim>\<open>unlock_selected_graces\<close>. The success message shows the
  number of unlocked graces and the first ten names.
\<close>

datatype messagebox =
    ErrorNotConnected
  | ErrorNoEventFlags
  | InfoUnlocked nat "string list"
  | InfoNoGracesSelected

definition unlock_selected_graces ::
  "(string \<rightharpoonup> int \<times> nat) \<Rightarrow> EldenRingModTool \<Rightarrow> messagebox \<times> EldenRingModTool" where
  "unlock_selected_graces KNOWN_GRACES tool =
     (if \<not> is_attached (memory tool) then (ErrorNotConnected, tool)
      else
        (let flag_base = get_event_flag_base tool in
         if flag_base = 0 then (ErrorNoEventFlags, tool)
         else
           (case unlock_loop KNOWN_GRACES flag_base (grace_checkboxes tool) (memory tool) [] of
              (unlocked, mm') \<Rightarrow>
                (if unlocked \<noteq> [] then InfoUnlocked (length unlocked) (take 10 unlocked)
                 else InfoNoGracesSelected,
                 tool\<lparr>memory := mm'\<rparr>))))"

section \<open>The stat randomizer\<close>

definition PLAYER_CLASSES :: "(int \<times> string) list" where
  "PLAYER_CLASSES =
     [(3000, ''Vagabond''), (3001, ''Warrior''), (3002, ''Hero''), (3003, ''Bandit''),
      (3004, ''Astrologer''), (3005, ''Prisoner''), (3006, ''Confessor''),
      (3007, ''Samurai''), (3008, ''Prophet''), (3009, ''Wretch'')]"

definition TARGET_LEVEL :: int where "TARGET_LEVEL = 9"
definition TOTAL_STATS :: int where "TOTAL_STATS = 88"
definition MIN_STAT :: int where "MIN_STAT = 6"
definition NUM_STATS :: int where "NUM_STATS = 8"

text \<open>The keys of the dictionary comprehension in \<^verbatim>\<open>randomize_stats\<close>.\<close>

definition STAT_NAMES :: "string list" where
  "STAT_NAMES = [''vigor'', ''mind'', ''endurance'', ''strength'',
                 ''dexterity'', ''intelligence'', ''faith'', ''arcane'']"

text \<open>
  Python's \<^verbatim>\<open>random\<close> module is a global generator. Its state is passed explicitly;
  the generator itself is a parameter: \<open>seed_state\<close> is the state that
  \<^verbatim>\<open>random.seed(seed)\<close> installs, \<open>randbelow\<close> is \<^verbatim>\<open>Random._randbelow\<close>, giving a
  number and the next state.
\<close>

record 'g rng =
  seed_state :: "int \<Rightarrow> 'g"
  randbelow :: "'g \<Rightarrow> nat \<Rightarrow> nat \<times> 'g"

text \<open>
  \<^verbatim>\<open>random.choice(seq)\<close> is \<^verbatim>\<open>seq[self._randbelow(len(seq))]\<close>, and raises
  \<^verbatim>\<open>IndexError\<close> (\<open>None\<close>) on an empty sequence or an index out of range.
\<close>

definition choice :: "'g rng \<Rightarrow> 'g \<Rightarrow> 'a list \<Rightarrow> ('a \<times> 'g) option" where
  "choice R g seq =
     (if seq = [] then None
      else
        (case randbelow R g (length seq) of
           (k, g') \<Rightarrow> if k < length seq then Some (seq ! k, g') else None))"

text \<open>
  A Python dictionary is an association list in insertion order: \<open>map_of\<close> reads a key,
  \<open>AList.update\<close> assigns one (in place when the key exists, appended otherwise).
  \<^verbatim>\<open>stats[key] += 1\<close> raises \<^verbatim>\<open>KeyError\<close> (\<open>None\<close>) on a missing key.
\<close>

type_synonym stats = "(string \<times> int) list"

type_synonym all_stats = "(int \<times> string \<times> stats) list"

text \<open>The \<^verbatim>\<open>for _ in range(remaining_pool)\<close> loop.\<close>

fun pool_loop :: "'g rng \<Rightarrow> nat \<Rightarrow> stats \<Rightarrow> 'g \<Rightarrow> (stats \<times> 'g) option" where
  "pool_loop R 0 stats g = Some (stats, g)"
| "pool_loop R (Suc n) stats g =
     (case choice R g (map fst stats) of
        None \<Rightarrow> None
      | Some (key, g') \<Rightarrow>
          (case map_of stats key of
             None \<Rightarrow> None
           | Some v \<Rightarrow> pool_loop R n (AList.update key (v + 1) stats) g'))"

text \<open>
  The \<^verbatim>\<open>for row_id, class_name in PLAYER_CLASSES.items()\<close> loop. An entry of
  \<open>all_stats\<close> is the pair of the \<^verbatim>\<open>'name'\<close> and the \<^verbatim>\<open>'stats'\<close> of the source's
  inner dictionary.
\<close>

fun class_loop ::
  "'g rng \<Rightarrow> int \<Rightarrow> (int \<times> string) list \<Rightarrow> all_stats \<Rightarrow> 'g \<Rightarrow> (all_stats \<times> 'g) option" where
  "class_loop R remaining_pool [] all_stats g = Some (all_stats, g)"
| "class_loop R remaining_pool ((row_id, class_name) # rest) all_stats g =
     (case pool_loop R (nat remaining_pool) (map (\<lambda>k. (k, MIN_STAT)) STAT_NAMES) g of
        None \<Rightarrow> None
      | Some (stats, g') \<Rightarrow>
          class_loop R remaining_pool rest
            (AList.update row_id (class_name, AList.update ''level'' TARGET_LEVEL stats) all_stats)
            g')"

text \<open>
  \<^verbatim>\<open>randomize_stats(seed)\<close>; \<open>g\<close> is the state of the global generator at the call,
  which \<^verbatim>\<open>random.seed(seed)\<close> replaces.
\<close>

definition randomize_stats :: "'g rng \<Rightarrow> 'g \<Rightarrow> int \<Rightarrow> (all_stats \<times> 'g) option" where
  "randomize_stats R g seed =
     (let g0 = seed_state R seed;
          remaining_pool = TOTAL_STATS - (MIN_STAT * NUM_STATS)
      in class_loop R remaining_pool PLAYER_CLASSES [] g0)"

section \<open>The module as a buffer\<close>

text \<open>
  The properties of the scan speak of a buffer: the bytes of the module of the attached
  process, and whether all of them can be read.
\<close>

definition module_contents :: "MemoryManager \<Rightarrow> byte list" where
  "module_contents mm =
     (case pm mm of
        None \<Rightarrow> []
      | Some p \<Rightarrow> map (\<lambda>k. content p (module_base mm + int k)) [0..<nat (module_size mm)])"

definition module_readable :: "MemoryManager \<Rightarrow> bool" where
  "module_readable mm =
     (case pm mm of
        None \<Rightarrow> False
      | Some p \<Rightarrow> list_all (\<lambda>k. readable p (module_base mm + int k)) [0..<nat (module_size mm)])"

section \<open>Fixtures\<close>

text \<open>
  A process whose module is three readable zero bytes at address 4096, and the manager
  attached to it.
\<close>

definition zero_module :: MemoryManager where
  "zero_module =
     \<lparr>pm = Some \<lparr>content = (\<lambda>a. 0), readable = (\<lambda>a. 4096 \<le> a \<and> a < 4099),
                  writable = (\<lambda>a. False), pm_process_id = 1\<rparr>,
      module_base = 4096, module_size = 3, process_id = 1,
      process_name = ''eldenring.exe'', last_error = NoError\<rparr>"

text \<open>
  A game that is running but whose module is not in the loader's table yet: the process
  \<^verbatim>\<open>eldenring.exe\<close> opens, \<^verbatim>\<open>module_from_name\<close> returns \<^verbatim>\<open>None\<close>, and there is no
  \<^verbatim>\<open>start_protected_game.exe\<close>.
\<close>

definition loading_game :: Pymem where
  "loading_game = \<lparr>content = (\<lambda>a. 0), readable = (\<lambda>a. False), writable = (\<lambda>a. False),
                     pm_process_id = 4242\<rparr>"

definition loading_system :: system where
  "loading_system =
     \<lparr>PYMEM_AVAILABLE = True,
      open_process = (\<lambda>name. if name = ''eldenring.exe'' then Opened loading_game else ProcessNotFound),
      module_from_name = (\<lambda>p name. NoModule)\<rparr>"

text \<open>A toy generator: the state is a counter, \<open>randbelow g n\<close> is \<open>g mod n\<close>.\<close>

definition counting_rng :: "nat rng" where
  "counting_rng = \<lparr>seed_state = (\<lambda>seed. nat \<bar>seed\<bar>), randbelow = (\<lambda>g n. (g mod n, Suc g))\<rparr>"

text \<open>
  A module of ten readable bytes at address 4096 that holds the instruction
  \<^verbatim>\<open>48 8B 3D 00 01 00 00\<close> at offset 1, and the pattern that matches it.
\<close>

definition sig_module :: MemoryManager where
  "sig_module =
     \<lparr>pm = Some \<lparr>content = (\<lambda>a. if a = 4097 then 0x48 else if a = 4098 then 0x8B
                               else if a = 4099 then 0x3D else if a = 4101 then 0x01
                               else if 4100 \<le> a \<and> a \<le> 4103 then 0x00 else 0x90),
                  readable = (\<lambda>a. 4096 \<le> a \<and> a < 4106),
                  writable = (\<lambda>a. False), pm_process_id = 1\<rparr>,
      module_base = 4096, module_size = 10, process_id = 1,
      process_name = ''eldenring.exe'', last_error = NoError\<rparr>"

definition sig_pattern :: "part list" where
  "sig_pattern = [Hex 0x48, Hex 0x8B, Hex 0x3D, Wildcard, Wildcard, Wildcard, Wildcard]"

text \<open>
  A process in which no address can be read and every address can be written, holding
  \<open>0xFF\<close> everywhere.
\<close>

definition unreadable_game :: MemoryManager where
  "unreadable_game =
     \<lparr>pm = Some \<lparr>content = (\<lambda>a. 0xFF), readable = (\<lambda>a. False),
                  writable = (\<lambda>a. True), pm_process_id = 1\<rparr>,
      module_base = 4096, module_size = 10, process_id = 1,
      process_name = ''eldenring.exe'', last_error = NoError\<rparr>"

text \<open>
  A process in which \<^verbatim>\<open>event_flag_man = 0x2000\<close> leads to the flag base \<open>0x10000\<close>
  (the pointer at \<open>0x2000\<close> is \<open>0x3000\<close>, the pointer at \<open>0x3028\<close> is \<open>0x10000\<close>) and
  the byte of "Gatefront" at \<open>0x10CBF\<close> cannot be written; and the tool attached to it
  with three check boxes, the one of "Gatefront" ticked or not.
\<close>

definition flag_game :: Pymem where
  "flag_game =
     \<lparr>content = (\<lambda>a. if a = 0x2001 then 0x30 else if a = 0x302A then 0x01 else 0),
      readable = (\<lambda>a. True),
      writable = (\<lambda>a. a \<noteq> 0x10CBF),
      pm_process_id = 1\<rparr>"

definition flag_tool :: "bool \<Rightarrow> EldenRingModTool" where
  "flag_tool gatefront =
     \<lparr>memory = \<lparr>pm = Some flag_game, module_base = 4096, module_size = 10, process_id = 1,
                 process_name = ''eldenring.exe'', last_error = NoError\<rparr>,
      event_flag_man = 0x2000,
      grace_checkboxes = [(''The First Step'', True), (''Gatefront'', gatefront),
                          (''Seaside Ruins'', True)]\<rparr>"

section \<open>The manual scan: when the loop cannot end\<close>

lemma read_bytes_length: "length (fst (read_bytes mm a n)) \<le> nat n"
  by (simp add: read_bytes_def pm_read_bytes_def split: option.splits)

lemma read_bytes_module_size: "module_size (snd (read_bytes mm a n)) = module_size mm"
  by (simp add: read_bytes_def split: option.splits)

text \<open>
  When the chunk to read has \<open>overlap\<close> bytes (one less than the pattern), it is
  shorter than the pattern and \<open>offset\<close> is advanced by
  \<open>current_chunk_size - overlap = 0\<close>: no call of the loop from such a state returns.
\<close>

lemma scan_loop_no_progress_aux:
  assumes ret: "scan_loop chunk_size pattern_bytes msk rel_offset additional mm offset = Some y"
  shows "\<not> (offset < module_size mm \<and> 1 \<le> length pattern_bytes
            \<and> min chunk_size (module_size mm - offset) = int (length pattern_bytes) - 1)"
proof (rule scan_loop.raw_induct
    [where P = "\<lambda>c pb m r a st off y. \<not> (off < module_size st \<and> 1 \<le> length pb
            \<and> min c (module_size st - off) = int (length pb) - 1)", OF _ ret], goal_cases)
  case (1 loop c pb m r a st off z)
  show ?case
  proof
    assume stuck: "off < module_size st \<and> 1 \<le> length pb
            \<and> min c (module_size st - off) = int (length pb) - 1"
    obtain chunk_bytes st' where rd:
      "read_bytes st (module_base st + off) (int (length pb) - 1) = (chunk_bytes, st')"
      by (cases "read_bytes st (module_base st + off) (int (length pb) - 1)")
    have len: "length chunk_bytes < length pb"
      using read_bytes_length [of st "module_base st + off" "int (length pb) - 1"] rd stuck
      by (cases "length pb") auto
    have ms: "module_size st' = module_size st"
      using read_bytes_module_size [of st "module_base st + off" "int (length pb) - 1"] rd
      by simp
    from 1(2) stuck rd len
    have "loop c pb m r a st' off = Some z"
      by (simp add: Let_def)
    from 1(1) [OF this] stuck ms show False by simp
  qed
qed

lemma scan_loop_no_progress:
  "offset < module_size mm \<Longrightarrow> 1 \<le> length pattern_bytes
   \<Longrightarrow> min chunk_size (module_size mm - offset) = int (length pattern_bytes) - 1
   \<Longrightarrow> scan_loop chunk_size pattern_bytes msk rel_offset additional mm offset = None"
  using scan_loop_no_progress_aux [of chunk_size pattern_bytes msk rel_offset additional mm offset]
  by (cases "scan_loop chunk_size pattern_bytes msk rel_offset additional mm offset") auto

lemma zero_module_fields: "module_size zero_module = 3" "module_base zero_module = 4096"
  by (simp_all add: zero_module_def)

lemma zero_module_read: "read_bytes zero_module 4096 3 = ([0, 0, 0], zero_module)"
  by (simp add: read_bytes_def pm_read_bytes_def zero_module_def upt_rec)

lemma zero_module_search: "search_chunk [1, 2] [True, True] 0 0 4096 [0, 0, 0] = None"
  by (simp add: search_chunk_def found_at_def upt_rec)

text \<open>
  C1. The claim: whenever no offset of the module matches a pattern of length at least 1,
  the manual scan terminates and signals PatternNotFound. The code at a module of three
  zero bytes and the pattern \<^verbatim>\<open>"01 02"\<close>, which matches nowhere: the first chunk is the
  whole module, \<open>offset\<close> becomes \<open>3 - 1 = 2\<close>, the next chunk has one byte, and from
  then on \<open>offset\<close> is advanced by \<open>1 - 1 = 0\<close>. The scan never returns.
\<close>

theorem manual_scan_never_returns:
  "manual_scan_aob zero_module [Hex 1, Hex 2] 0 0 = None"
proof -
  have stuck: "scan_loop CHUNK_SIZE [1, 2] [True, True] 0 0 zero_module 2 = None"
    by (rule scan_loop_no_progress) (simp_all add: CHUNK_SIZE_def zero_module_fields)
  have "scan_loop CHUNK_SIZE [1, 2] [True, True] 0 0 zero_module 0
          = scan_loop CHUNK_SIZE [1, 2] [True, True] 0 0 zero_module 2"
    by (subst scan_loop.simps)
      (simp add: CHUNK_SIZE_def Let_def zero_module_fields zero_module_read zero_module_search)
  with stuck show ?thesis
    by (simp add: manual_scan_aob_def manual_scan_aob_chunked_def)
qed

section \<open>attach when the module cannot be resolved\<close>

text \<open>
  C3. The claim: when a candidate process opens but its module cannot be resolved, attach
  still returns a session (success) with module size 0. The code, from a fresh manager,
  with \<^verbatim>\<open>eldenring.exe\<close> opening and \<^verbatim>\<open>module_from_name\<close> returning \<^verbatim>\<open>None\<close>: the loop
  goes on to the next candidate, finds none, and \<^verbatim>\<open>attach\<close> returns \<^verbatim>\<open>False\<close> with
  the message "Process not found", while the handle stays in \<^verbatim>\<open>self.pm\<close>.
\<close>

theorem attach_unresolved_module_returns_False:
  "attach loading_system init None =
     (False, \<lparr>pm = Some loading_game, module_base = 0, module_size = 0, process_id = 4242,
              process_name = ''eldenring.exe'',
              last_error = ProcessNotFoundTried [''eldenring.exe'', ''start_protected_game.exe'']\<rparr>)"
  by (simp add: attach_def init_def is_attached_def ELDEN_RING_PROCESSES_def loading_system_def
      loading_game_def)

section \<open>The stat randomizer\<close>

lemma update_sum:
  "map_of al k = Some v \<Longrightarrow>
   sum_list (map snd (AList.update k v' al)) = sum_list (map snd al) - v + (v'::int)"
  by (induction al) (auto split: if_splits)

lemma update_keys_present:
  "map_of al k = Some v \<Longrightarrow> map fst (AList.update k v' al) = map fst al"
  by (induction al) (auto split: if_splits)

lemma update_values_ge:
  "\<forall>x\<in>set (map snd al). m \<le> x \<Longrightarrow> m \<le> v' \<Longrightarrow> \<forall>x\<in>set (map snd (AList.update k v' al)). (m::int) \<le> x"
  by (induction al) (auto split: if_splits)

lemma update_absent: "k \<notin> set (map fst al) \<Longrightarrow> AList.update k v al = al @ [(k, v)]"
  by (induction al) auto

lemma choice_member:
  assumes "\<forall>g n. 0 < n \<longrightarrow> fst (randbelow R g n) < n" "seq \<noteq> []"
  shows "\<exists>key g'. choice R g seq = Some (key, g') \<and> key \<in> set seq"
proof -
  obtain k g' where rb: "randbelow R g (length seq) = (k, g')"
    by (cases "randbelow R g (length seq)")
  from assms have "fst (randbelow R g (length seq)) < length seq" by simp
  with rb have "k < length seq" by simp
  with rb assms(2) show ?thesis by (simp add: choice_def)
qed

lemma pool_loop_invariant:
  assumes rb: "\<forall>g n. 0 < n \<longrightarrow> fst (randbelow R g n) < n"
  shows "stats \<noteq> [] \<Longrightarrow> \<forall>x\<in>set (map snd stats). m \<le> x \<Longrightarrow>
         \<exists>stats' g'. pool_loop R n stats g = Some (stats', g')
            \<and> map fst stats' = map fst stats
            \<and> (\<forall>x\<in>set (map snd stats'). m \<le> x)
            \<and> sum_list (map snd stats') = sum_list (map snd stats) + int n"
proof (induction n arbitrary: stats g)
  case 0
  then show ?case by simp
next
  case (Suc n)
  from Suc.prems(1) have ne: "map fst stats \<noteq> []" by simp
  from choice_member [OF rb ne] obtain key g1 where
    ch: "choice R g (map fst stats) = Some (key, g1)" and mem: "key \<in> set (map fst stats)"
    by blast
  from mem obtain v where v: "map_of stats key = Some v"
    by (metis map_of_eq_None_iff not_Some_eq set_map)
  let ?st = "AList.update key (v + 1) stats"
  have keys: "map fst ?st = map fst stats" using v by (rule update_keys_present)
  have sum: "sum_list (map snd ?st) = sum_list (map snd stats) + 1"
    using update_sum [OF v, of "v + 1"] by simp
  have "v \<in> set (map snd stats)" using v by (metis map_of_SomeD set_zip_rightD zip_map_fst_snd)
  with Suc.prems(2) have "m \<le> v + 1" by fastforce
  with Suc.prems(2) have ge: "\<forall>x\<in>set (map snd ?st). m \<le> x" by (rule update_values_ge)
  from keys Suc.prems(1) have ne': "?st \<noteq> []" by auto
  from Suc.IH [OF ne' ge, of g1] obtain stats' g' where
    "pool_loop R n ?st g1 = Some (stats', g')" "map fst stats' = map fst ?st"
    "\<forall>x\<in>set (map snd stats'). m \<le> x"
    "sum_list (map snd stats') = sum_list (map snd ?st) + int n"
    by blast
  with ch v keys sum show ?case by simp
qed

lemma class_loop_invariant:
  assumes rb: "\<forall>g n. 0 < n \<longrightarrow> fst (randbelow R g n) < n"
  shows "distinct (map fst acc @ map fst classes) \<Longrightarrow>
         \<exists>res g'. class_loop R 40 classes acc g = Some (res, g')
            \<and> map fst res = map fst acc @ map fst classes
            \<and> (\<forall>e\<in>set res. e \<in> set acc \<or>
                  (\<exists>vs. (fst e, fst (snd e)) \<in> set classes
                     \<and> snd (snd e) = zip STAT_NAMES vs @ [(''level'', 9)]
                     \<and> length vs = 8 \<and> (\<forall>v\<in>set vs. 6 \<le> v) \<and> sum_list vs = 88))"
proof (induction classes arbitrary: acc g)
  case Nil
  then show ?case by simp
next
  case (Cons c classes)
  obtain row_id class_name where c: "c = (row_id, class_name)" by (cases c)
  let ?init = "map (\<lambda>k. (k, MIN_STAT)) STAT_NAMES"
  have ne: "?init \<noteq> []" by (simp add: STAT_NAMES_def)
  have ge: "\<forall>x\<in>set (map snd ?init). 6 \<le> x" by (simp add: MIN_STAT_def)
  from pool_loop_invariant [OF rb ne ge, of 40 g] obtain stats g1 where
    pl: "pool_loop R 40 ?init g = Some (stats, g1)" and
    keys: "map fst stats = map fst ?init" and
    vals: "\<forall>x\<in>set (map snd stats). 6 \<le> x" and
    sum: "sum_list (map snd stats) = sum_list (map snd ?init) + int 40"
    by blast
  have keys': "map fst stats = STAT_NAMES" using keys by (simp add: comp_def)
  have sum': "sum_list (map snd stats) = 88" using sum by (simp add: comp_def STAT_NAMES_def MIN_STAT_def)
  have len: "length (map snd stats) = 8"
    using arg_cong [OF keys', of length] by (simp add: STAT_NAMES_def)
  have zip: "stats = zip STAT_NAMES (map snd stats)"
    using zip_map_fst_snd [of stats] keys' by simp
  have "''level'' \<notin> set (map fst stats)" unfolding keys' by (simp add: STAT_NAMES_def)
  then have lvl: "AList.update ''level'' TARGET_LEVEL stats = stats @ [(''level'', 9)]"
    by (simp add: update_absent TARGET_LEVEL_def)
  let ?entry = "(class_name, AList.update ''level'' TARGET_LEVEL stats)"
  let ?acc = "AList.update row_id ?entry acc"
  from Cons.prems c have "row_id \<notin> set (map fst acc)" by auto
  then have acc': "?acc = acc @ [(row_id, ?entry)]" by (rule update_absent)
  from Cons.prems c have dist: "distinct (map fst ?acc @ map fst classes)"
    unfolding acc' by auto
  from Cons.IH [OF dist, of g1] obtain res g' where
    cl: "class_loop R 40 classes ?acc g1 = Some (res, g')" and
    rk: "map fst res = map fst ?acc @ map fst classes" and
    re: "\<forall>e\<in>set res. e \<in> set ?acc \<or>
                  (\<exists>vs. (fst e, fst (snd e)) \<in> set classes
                     \<and> snd (snd e) = zip STAT_NAMES vs @ [(''level'', 9)]
                     \<and> length vs = 8 \<and> (\<forall>v\<in>set vs. 6 \<le> v) \<and> sum_list vs = 88)"
    by blast
  have run: "class_loop R 40 (c # classes) acc g = Some (res, g')"
    using pl cl c by simp
  have keys_res: "map fst res = map fst acc @ map fst (c # classes)"
    using rk c unfolding acc' by simp
  have ent: "\<exists>vs. snd ?entry = zip STAT_NAMES vs @ [(''level'', 9)]
                \<and> length vs = 8 \<and> (\<forall>v\<in>set vs. 6 \<le> v) \<and> sum_list vs = 88"
    using lvl zip len vals sum' by (intro exI [of _ "map snd stats"]) simp
  have "\<forall>e\<in>set res. e \<in> set acc \<or>
                  (\<exists>vs. (fst e, fst (snd e)) \<in> set (c # classes)
                     \<and> snd (snd e) = zip STAT_NAMES vs @ [(''level'', 9)]
                     \<and> length vs = 8 \<and> (\<forall>v\<in>set vs. 6 \<le> v) \<and> sum_list vs = 88)"
  proof
    fix e assume "e \<in> set res"
    with re have "e \<in> set ?acc \<or>
                  (\<exists>vs. (fst e, fst (snd e)) \<in> set classes
                     \<and> snd (snd e) = zip STAT_NAMES vs @ [(''level'', 9)]
                     \<and> length vs = 8 \<and> (\<forall>v\<in>set vs. 6 \<le> v) \<and> sum_list vs = 88)"
      by blast
    then show "e \<in> set acc \<or>
                  (\<exists>vs. (fst e, fst (snd e)) \<in> set (c # classes)
                     \<and> snd (snd e) = zip STAT_NAMES vs @ [(''level'', 9)]
                     \<and> length vs = 8 \<and> (\<forall>v\<in>set vs. 6 \<le> v) \<and> sum_list vs = 88)"
    proof
      assume "e \<in> set ?acc"
      then have "e \<in> set acc \<or> e = (row_id, ?entry)" unfolding acc' by auto
      then show ?thesis
      proof
        assume "e \<in> set acc" then show ?thesis by simp
      next
        assume "e = (row_id, ?entry)"
        with ent c show ?thesis by auto
      qed
    next
      assume "\<exists>vs. (fst e, fst (snd e)) \<in> set classes
                     \<and> snd (snd e) = zip STAT_NAMES vs @ [(''level'', 9)]
                     \<and> length vs = 8 \<and> (\<forall>v\<in>set vs. 6 \<le> v) \<and> sum_list vs = 88"
      then show ?thesis by auto
    qed
  qed
  with run keys_res show ?case by blast
qed

text \<open>
  C9. For every seed, and every generator whose \<open>randbelow g n\<close> lies below \<open>n\<close>,
  \<^verbatim>\<open>randomize_stats\<close> returns stats for exactly the ten classes of \<open>PLAYER_CLASSES\<close>;
  for each class the eight attributes are at least 6 and sum to 88, and the level is 9.
\<close>

theorem randomize_stats_valid:
  assumes "\<forall>g n. 0 < n \<longrightarrow> fst (randbelow R g n) < n"
  shows "\<exists>result g'. randomize_stats R g seed = Some (result, g')
           \<and> map fst result = [3000, 3001, 3002, 3003, 3004, 3005, 3006, 3007, 3008, 3009]
           \<and> (\<forall>(row_id, class_name, stats)\<in>set result.
                (row_id, class_name) \<in> set PLAYER_CLASSES
                \<and> (\<exists>vs. stats = zip STAT_NAMES vs @ [(''level'', 9)]
                      \<and> length vs = 8 \<and> (\<forall>v\<in>set vs. 6 \<le> v) \<and> sum_list vs = 88))"
proof -
  have "distinct (map fst ([] :: all_stats) @ map fst PLAYER_CLASSES)"
    by (simp add: PLAYER_CLASSES_def)
  from class_loop_invariant [OF assms this, of "seed_state R seed"] obtain res g' where
    "class_loop R 40 PLAYER_CLASSES [] (seed_state R seed) = Some (res, g')"
    "map fst res = map fst PLAYER_CLASSES"
    "\<forall>e\<in>set res. \<exists>vs. (fst e, fst (snd e)) \<in> set PLAYER_CLASSES
                     \<and> snd (snd e) = zip STAT_NAMES vs @ [(''level'', 9)]
                     \<and> length vs = 8 \<and> (\<forall>v\<in>set vs. 6 \<le> v) \<and> sum_list vs = 88"
    by auto
  moreover have "map fst PLAYER_CLASSES = [3000, 3001, 3002, 3003, 3004, 3005, 3006, 3007, 3008, 3009]"
    by (simp add: PLAYER_CLASSES_def)
  ultimately show ?thesis
    by (simp add: randomize_stats_def TOTAL_STATS_def MIN_STAT_def NUM_STATS_def case_prod_beta)
qed

theorem randomize_stats_valid_witness:
  "\<exists>result g'. randomize_stats counting_rng 0 42 = Some (result, g')
           \<and> map fst result = [3000, 3001, 3002, 3003, 3004, 3005, 3006, 3007, 3008, 3009]
           \<and> (\<forall>(row_id, class_name, stats)\<in>set result.
                (row_id, class_name) \<in> set PLAYER_CLASSES
                \<and> (\<exists>vs. stats = zip STAT_NAMES vs @ [(''level'', 9)]
                      \<and> length vs = 8 \<and> (\<forall>v\<in>set vs. 6 \<le> v) \<and> sum_list vs = 88))"
proof -
  have h: "\<forall>g n. 0 < n \<longrightarrow> fst (randbelow counting_rng g n) < n"
    by (simp add: counting_rng_def)
  show ?thesis by (rule randomize_stats_valid [OF h, of 0 42])
qed

text \<open>
  C10. The stats depend on the seed only: whatever state the global generator is in at
  the two calls, the same seed gives the same stats for every class.
\<close>

theorem randomize_stats_seed_determines:
  "map_option fst (randomize_stats R g1 seed) = map_option fst (randomize_stats R g2 seed)"
  by (simp add: randomize_stats_def)

section \<open>The manual scan on a readable module\<close>

lemma module_contents_length: "pm mm = Some p \<Longrightarrow> length (module_contents mm) = nat (module_size mm)"
  by (simp add: module_contents_def)

lemma read_bytes_in_module:
  assumes "module_readable mm" "0 \<le> off" "0 \<le> n" "off + n \<le> module_size mm"
  shows "read_bytes mm (module_base mm + off) n
           = (take (nat n) (drop (nat off) (module_contents mm)), mm)"
proof -
  from assms(1) obtain p where p: "pm mm = Some p"
    by (auto simp: module_readable_def split: option.splits)
  from assms(1) p have rd: "\<forall>k < nat (module_size mm). readable p (module_base mm + int k)"
    by (simp add: module_readable_def list_all_iff)
  have "\<forall>k < nat n. readable p (module_base mm + off + int k)"
  proof (intro allI impI)
    fix k assume "k < nat n"
    with assms have "nat off + k < nat (module_size mm)" by linarith
    with rd have "readable p (module_base mm + int (nat off + k))" by blast
    with assms(2) show "readable p (module_base mm + off + int k)" by (simp add: add.assoc)
  qed
  then have ok: "list_all (\<lambda>k. readable p (module_base mm + off + int k)) [0..<nat n]"
    by (simp add: list_all_iff)
  have "map (\<lambda>k. content p (module_base mm + off + int k)) [0..<nat n]
          = take (nat n) (drop (nat off) (module_contents mm))"
  proof (rule nth_equalityI)
    show "length (map (\<lambda>k. content p (module_base mm + off + int k)) [0..<nat n])
            = length (take (nat n) (drop (nat off) (module_contents mm)))"
      using assms p by (simp add: module_contents_def)
  next
    fix i assume "i < length (map (\<lambda>k. content p (module_base mm + off + int k)) [0..<nat n])"
    then have i: "i < nat n" by simp
    with assms have "nat off + i < nat (module_size mm)" by linarith
    with i assms(2) show "map (\<lambda>k. content p (module_base mm + off + int k)) [0..<nat n] ! i
            = take (nat n) (drop (nat off) (module_contents mm)) ! i"
      using p by (simp add: module_contents_def add.assoc)
  qed
  with ok p assms(3) show ?thesis by (simp add: read_bytes_def pm_read_bytes_def)
qed

lemma found_at_iff:
  "found_at pattern_bytes msk chunk_bytes i
     \<longleftrightarrow> (\<forall>j < length pattern_bytes. msk ! j \<longrightarrow> uint (chunk_bytes ! (i + j)) = pattern_bytes ! j)"
  by (auto simp: found_at_def list_all_iff)

lemma found_at_window:
  assumes "i + length pattern_bytes \<le> n" "off + n \<le> length buf"
  shows "found_at pattern_bytes msk (take n (drop off buf)) i
           = found_at pattern_bytes msk buf (off + i)"
  using assms by (simp add: found_at_iff add.assoc)

lemma find_upt_first:
  assumes "i < m" "P i" "\<forall>j < i. \<not> P j"
  shows "find P [0..<m] = Some i"
  using assms by (auto simp: find_Some_iff)

lemma find_upt_none: "\<forall>j < m. \<not> P j \<Longrightarrow> find P [0..<m] = None"
  by (simp add: find_None_iff)

lemma py_slice_inside:
  assumes "0 \<le> a" "a + 4 \<le> int (length xs)"
  shows "py_slice xs a (a + 4) = take 4 (drop (nat a) xs)"
  using assms by (simp add: py_slice_def Let_def)

lemma parse_pattern_length:
  "parse_pattern parts = Some (pattern_bytes, msk)
     \<Longrightarrow> length pattern_bytes = length parts \<and> length msk = length parts"
  by (induction parts arbitrary: pattern_bytes msk rule: parse_pattern.induct) auto

lemma search_chunk_miss:
  assumes "off + m \<le> length buf" "length pattern_bytes \<le> m"
    and "\<forall>q. off \<le> q \<and> q + length pattern_bytes \<le> off + m \<longrightarrow> \<not> found_at pattern_bytes msk buf q"
  shows "search_chunk pattern_bytes msk rel_offset additional addr (take m (drop off buf)) = None"
proof -
  have len: "length (take m (drop off buf)) = m" using assms(1) by simp
  have "\<forall>j < m - length pattern_bytes + 1. \<not> found_at pattern_bytes msk (take m (drop off buf)) j"
  proof (intro allI impI)
    fix j assume j: "j < m - length pattern_bytes + 1"
    with assms(2) have jl: "j + length pattern_bytes \<le> m" by linarith
    then have "found_at pattern_bytes msk (take m (drop off buf)) j
                 = found_at pattern_bytes msk buf (off + j)"
      using assms(1) by (rule found_at_window)
    moreover from jl assms(3) have "\<not> found_at pattern_bytes msk buf (off + j)" by simp
    ultimately show "\<not> found_at pattern_bytes msk (take m (drop off buf)) j" by simp
  qed
  then have "find (found_at pattern_bytes msk (take m (drop off buf))) [0..<m - length pattern_bytes + 1] = None"
    by (rule find_upt_none)
  with len show ?thesis by (simp add: search_chunk_def)
qed

lemma search_chunk_hit:
  assumes "off + m \<le> length buf" "length pattern_bytes \<le> m"
    and "off \<le> p0" "p0 + length pattern_bytes \<le> off + m"
    and "found_at pattern_bytes msk buf p0"
    and "\<forall>q < p0. \<not> found_at pattern_bytes msk buf q"
    and "0 \<le> rel_offset" "rel_offset + 4 \<le> int (length pattern_bytes)"
  shows "search_chunk pattern_bytes msk rel_offset additional addr (take m (drop off buf))
           = Some (Matched (addr + int (p0 - off))
                     (addr + int (p0 - off) + additional
                        + sint (word_of_int (le_uint (take 4 (drop (p0 + nat rel_offset) buf))) :: 32 word)))"
proof -
  let ?chunk = "take m (drop off buf)"
  let ?i = "p0 - off"
  have len: "length ?chunk = m" using assms(1) by simp
  have i_lt: "?i < m - length pattern_bytes + 1" using assms(2,3,4) by linarith
  have il: "?i + length pattern_bytes \<le> m" using assms(3,4) by linarith
  have "found_at pattern_bytes msk ?chunk ?i = found_at pattern_bytes msk buf (off + ?i)"
    using il assms(1) by (rule found_at_window)
  with assms(3,5) have hit: "found_at pattern_bytes msk ?chunk ?i" by simp
  have before: "\<forall>j < ?i. \<not> found_at pattern_bytes msk ?chunk j"
  proof (intro allI impI)
    fix j assume j: "j < ?i"
    with il have "j + length pattern_bytes \<le> m" by linarith
    then have "found_at pattern_bytes msk ?chunk j = found_at pattern_bytes msk buf (off + j)"
      using assms(1) by (rule found_at_window)
    moreover from j have "off + j < p0" by linarith
    ultimately show "\<not> found_at pattern_bytes msk ?chunk j" using assms(6) by simp
  qed
  have fnd: "find (found_at pattern_bytes msk ?chunk) [0..<m - length pattern_bytes + 1] = Some ?i"
    using i_lt hit before by (rule find_upt_first)
  have a0: "0 \<le> int ?i + rel_offset" using assms(7) by simp
  have a4: "int ?i + rel_offset + 4 \<le> int (length ?chunk)"
    using il assms(8) len by linarith
  have sl: "py_slice ?chunk (int ?i + rel_offset) (int ?i + rel_offset + 4)
              = take 4 (drop (nat (int ?i + rel_offset)) ?chunk)"
    using a0 a4 by (rule py_slice_inside)
  have nat_eq: "nat (int ?i + rel_offset) = ?i + nat rel_offset"
    using assms(7) by linarith
  have k4: "?i + nat rel_offset + 4 \<le> m" using il assms(7,8) by linarith
  have "take 4 (drop (?i + nat rel_offset) ?chunk) = take 4 (drop (p0 + nat rel_offset) buf)"
  proof -
    have "drop (?i + nat rel_offset) ?chunk
            = take (m - (?i + nat rel_offset)) (drop (?i + nat rel_offset + off) buf)"
      by (simp add: drop_take)
    moreover have "?i + nat rel_offset + off = p0 + nat rel_offset" using assms(3) by simp
    moreover have "min 4 (m - (?i + nat rel_offset)) = 4" using k4 by simp
    ultimately show ?thesis by (simp add: min.commute)
  qed
  with sl nat_eq have sl': "py_slice ?chunk (int ?i + rel_offset) (int ?i + rel_offset + 4)
              = take 4 (drop (p0 + nat rel_offset) buf)" by simp
  have "p0 + nat rel_offset + 4 \<le> length buf"
    using assms(1,4,7,8) by linarith
  then have l4: "length (take 4 (drop (p0 + nat rel_offset) buf)) = 4" by simp
  have un: "unpack_i32_le (take 4 (drop (p0 + nat rel_offset) buf))
              = Some (sint (word_of_int (le_uint (take 4 (drop (p0 + nat rel_offset) buf))) :: 32 word))"
    using l4 unfolding unpack_i32_le_def by (simp del: length_take)
  show ?thesis
    unfolding search_chunk_def Let_def
    by (simp only: len fnd sl' un option.case)
qed

text \<open>
  On a readable module, with a chunk size of at least the pattern length, the loop
  started at or below the lowest match leaves at that match: every window of the
  pattern's length lies inside some chunk, and the chunks are visited in order.
\<close>

lemma scan_loop_finds_lowest:
  fixes p0 :: nat
  assumes rd: "module_readable mm"
    and L1: "1 \<le> length pattern_bytes"
    and Lc: "int (length pattern_bytes) \<le> chunk_size"
    and inb: "int p0 + int (length pattern_bytes) \<le> module_size mm"
    and hit: "found_at pattern_bytes msk (module_contents mm) p0"
    and low: "\<forall>q < p0. \<not> found_at pattern_bytes msk (module_contents mm) q"
    and r0: "0 \<le> rel_offset"
    and r4: "rel_offset + 4 \<le> int (length pattern_bytes)"
  shows "0 \<le> offset \<Longrightarrow> offset \<le> int p0 \<Longrightarrow>
         scan_loop chunk_size pattern_bytes msk rel_offset additional mm offset
           = Some (Matched (module_base mm + int p0)
                     (module_base mm + int p0 + additional
                        + sint (word_of_int (le_uint (take 4 (drop (p0 + nat rel_offset)
                              (module_contents mm)))) :: 32 word)), mm)"
proof (induction "nat (int p0 - offset)" arbitrary: offset rule: less_induct)
  case less
  let ?L = "length pattern_bytes"
  let ?buf = "module_contents mm"
  let ?ccs = "min chunk_size (module_size mm - offset)"
  from rd obtain p where p: "pm mm = Some p"
    by (auto simp: module_readable_def split: option.splits)
  have blen: "length ?buf = nat (module_size mm)" using p by (rule module_contents_length)
  have lt: "offset < module_size mm" using less.prems inb L1 by linarith
  have ccs_ge: "int ?L \<le> ?ccs" using Lc inb less.prems by simp
  have ccs_le: "offset + ?ccs \<le> module_size mm" by simp
  have ccs0: "0 \<le> ?ccs" using ccs_ge by linarith
  have rdc: "read_bytes mm (module_base mm + offset) ?ccs
               = (take (nat ?ccs) (drop (nat offset) ?buf), mm)"
    using rd less.prems(1) ccs0 ccs_le by (rule read_bytes_in_module)
  have win: "nat offset + nat ?ccs \<le> length ?buf"
    using blen less.prems(1) ccs0 ccs_le by linarith
  have clen: "length (take (nat ?ccs) (drop (nat offset) ?buf)) = nat ?ccs"
    using win by simp
  have Lm: "?L \<le> nat ?ccs" using ccs_ge by linarith
  have nonempty: "\<not> (take (nat ?ccs) (drop (nat offset) ?buf) = []
                     \<or> length (take (nat ?ccs) (drop (nat offset) ?buf)) < ?L)"
    using clen Lm L1 by (metis One_nat_def Suc_le_lessD leD le_trans length_greater_0_conv less_le_trans)
  show ?case
  proof (cases "int p0 + int ?L \<le> offset + ?ccs")
    case True
    have o_le: "nat offset \<le> p0" using less.prems by linarith
    have fits: "p0 + ?L \<le> nat offset + nat ?ccs" using True less.prems(1) ccs0 by linarith
    have sc: "search_chunk pattern_bytes msk rel_offset additional (module_base mm + offset)
                (take (nat ?ccs) (drop (nat offset) ?buf))
              = Some (Matched (module_base mm + offset + int (p0 - nat offset))
                     (module_base mm + offset + int (p0 - nat offset) + additional
                        + sint (word_of_int (le_uint (take 4 (drop (p0 + nat rel_offset) ?buf))) :: 32 word)))"
      using win Lm o_le fits hit low r0 r4 by (rule search_chunk_hit)
    have addr: "module_base mm + offset + int (p0 - nat offset) = module_base mm + int p0"
      using less.prems by linarith
    show ?thesis
      apply (subst scan_loop.simps)
      using lt nonempty sc addr
      apply (simp only: Let_def rdc if_True if_False prod.case option.case)
      done
  next
    case False
    have miss: "\<forall>q. nat offset \<le> q \<and> q + ?L \<le> nat offset + nat ?ccs
                  \<longrightarrow> \<not> found_at pattern_bytes msk ?buf q"
    proof (intro allI impI)
      fix q assume q: "nat offset \<le> q \<and> q + ?L \<le> nat offset + nat ?ccs"
      with False less.prems(1) ccs0 have "q < p0" by linarith
      with low show "\<not> found_at pattern_bytes msk ?buf q" by simp
    qed
    have sc: "search_chunk pattern_bytes msk rel_offset additional (module_base mm + offset)
                (take (nat ?ccs) (drop (nat offset) ?buf)) = None"
      using win Lm miss by (rule search_chunk_miss)
    let ?next = "offset + (?ccs - (int ?L - 1))"
    have n0: "0 \<le> ?next" using less.prems(1) ccs_ge by linarith
    have np: "?next \<le> int p0" using False by linarith
    have dec: "nat (int p0 - ?next) < nat (int p0 - offset)" using ccs_ge np by linarith
    have ih: "scan_loop chunk_size pattern_bytes msk rel_offset additional mm ?next
           = Some (Matched (module_base mm + int p0)
                     (module_base mm + int p0 + additional
                        + sint (word_of_int (le_uint (take 4 (drop (p0 + nat rel_offset)
                              ?buf))) :: 32 word)), mm)"
      using dec n0 np by (rule less.hyps)
    show ?thesis
      apply (subst scan_loop.simps)
      using lt nonempty sc ih
      apply (simp only: Let_def rdc if_True if_False prod.case option.case)
      done
  qed
qed

lemma manual_scan_finds_lowest:
  fixes p0 :: nat
  assumes "module_readable mm"
    and "parse_pattern pattern = Some (pattern_bytes, msk)"
    and "int (length pattern) \<le> chunk_size"
    and "int p0 + int (length pattern) \<le> module_size mm"
    and "found_at pattern_bytes msk (module_contents mm) p0"
    and "\<forall>q < p0. \<not> found_at pattern_bytes msk (module_contents mm) q"
    and "0 \<le> rel_offset" and "rel_offset + 4 \<le> int (length pattern)"
  shows "manual_scan_aob_chunked chunk_size mm pattern rel_offset additional
           = Some (module_base mm + int p0 + additional
                     + sint (word_of_int (le_uint (take 4 (drop (p0 + nat rel_offset)
                            (module_contents mm)))) :: 32 word), mm)"
proof -
  from assms(2) have len: "length pattern_bytes = length pattern"
    by (simp add: parse_pattern_length)
  from assms(7,8) len have L1: "1 \<le> length pattern_bytes" by linarith
  have "scan_loop chunk_size pattern_bytes msk rel_offset additional mm 0
           = Some (Matched (module_base mm + int p0)
                     (module_base mm + int p0 + additional
                        + sint (word_of_int (le_uint (take 4 (drop (p0 + nat rel_offset)
                              (module_contents mm)))) :: 32 word)), mm)"
    using assms(1) L1 assms(3,4,5,6,7,8) unfolding len [symmetric]
    by (rule scan_loop_finds_lowest) simp_all
  with assms(2) show ?thesis by (simp add: manual_scan_aob_chunked_def)
qed

lemma sig_module_contents:
  "module_contents sig_module = [0x90, 0x48, 0x8B, 0x3D, 0x00, 0x01, 0x00, 0x00, 0x90, 0x90]"
  by (simp add: module_contents_def sig_module_def upt_rec)

lemma sig_module_base: "module_base sig_module = 4096"
  by (simp add: sig_module_def)

lemma sig_module_readable: "module_readable sig_module"
  by (simp add: module_readable_def sig_module_def upt_rec)

lemma sig_pattern_parse:
  "parse_pattern sig_pattern = Some ([0x48, 0x8B, 0x3D, 0, 0, 0, 0],
      [True, True, True, False, False, False, False])"
  by (simp add: sig_pattern_def)

lemma sig_module_matches:
  "found_at [0x48, 0x8B, 0x3D, 0, 0, 0, 0] [True, True, True, False, False, False, False]
     (module_contents sig_module) q \<longleftrightarrow> q = 1" if "q < 4"
proof -
  from that have "q = 0 \<or> q = 1 \<or> q = 2 \<or> q = 3" by linarith
  then show ?thesis
    by (elim disjE) (simp_all add: found_at_def sig_module_contents upt_rec)
qed

text \<open>
  C6, as stated: for every chunk size smaller than the buffer length the chunked scan
  returns what a scan with one chunk over the whole buffer returns. It fails for a chunk
  size below the pattern length: with chunk size 6 and the pattern of 7 parts every chunk
  is too short to hold a match and \<open>offset\<close> never moves, while the scan with one
  chunk of 10 bytes finds the match at offset 1.
\<close>

theorem chunk_shorter_than_pattern_never_returns:
  "manual_scan_aob_chunked 6 sig_module sig_pattern 3 7 = None
   \<and> manual_scan_aob_chunked 10 sig_module sig_pattern 3 7 = Some (4097 + 7 + 0x100, sig_module)"
proof -
  have "scan_loop 6 [0x48, 0x8B, 0x3D, 0, 0, 0, 0] [True, True, True, False, False, False, False]
          3 7 sig_module 0 = None"
    by (rule scan_loop_no_progress) (simp_all add: sig_module_def)
  then have a: "manual_scan_aob_chunked 6 sig_module sig_pattern 3 7 = None"
    by (simp add: manual_scan_aob_chunked_def sig_pattern_parse)
  have uniq: "\<forall>q < 1. \<not> found_at [0x48, 0x8B, 0x3D, 0, 0, 0, 0] [True, True, True, False, False, False, False]
        (module_contents sig_module) q"
    by (simp add: sig_module_matches)
  have hit: "found_at [0x48, 0x8B, 0x3D, 0, 0, 0, 0] [True, True, True, False, False, False, False]
        (module_contents sig_module) 1"
    by (simp add: sig_module_matches)
  have rel: "sint (word_of_int (le_uint (take 4 (drop (1 + nat 3) (module_contents sig_module)))) :: 32 word) = 0x100"
    by (simp add: sig_module_contents le_uint_def)
  have "manual_scan_aob_chunked 10 sig_module sig_pattern 3 7
           = Some (module_base sig_module + int 1 + 7
                     + sint (word_of_int (le_uint (take 4 (drop (1 + nat 3)
                            (module_contents sig_module)))) :: 32 word), sig_module)"
    by (rule manual_scan_finds_lowest [OF sig_module_readable sig_pattern_parse _ _ hit uniq])
      (simp_all add: sig_pattern_def sig_module_def)
  then have b: "manual_scan_aob_chunked 10 sig_module sig_pattern 3 7 = Some (4097 + 7 + 0x100, sig_module)"
    unfolding rel sig_module_base by simp
  from a b show ?thesis by simp
qed

text \<open>
  C6, amended: on a readable module with exactly one match, for a pattern whose relative
  offset lies within \<open>[0, length - 4]\<close>, every chunk size that is at least the pattern
  length (and smaller than the module) gives the same result as a chunk size of at least
  the module size: the address resolved at the match, wherever the match lies.
\<close>

theorem chunked_scan_same_as_whole:
  fixes p :: nat
  assumes "module_readable mm"
    and "parse_pattern pattern = Some (pattern_bytes, msk)"
    and "0 \<le> rel_offset" and "rel_offset + 4 \<le> int (length pattern)"
    and "int p + int (length pattern) \<le> module_size mm"
    and "\<forall>q. int q + int (length pattern) \<le> module_size mm \<longrightarrow>
              (found_at pattern_bytes msk (module_contents mm) q \<longleftrightarrow> q = p)"
    and "int (length pattern) \<le> chunk_size" and "chunk_size < module_size mm"
    and "module_size mm \<le> whole"
  shows "manual_scan_aob_chunked chunk_size mm pattern rel_offset additional
           = manual_scan_aob_chunked whole mm pattern rel_offset additional
         \<and> manual_scan_aob_chunked chunk_size mm pattern rel_offset additional
           = Some (module_base mm + int p + additional
                     + sint (word_of_int (le_uint (take 4 (drop (p + nat rel_offset)
                            (module_contents mm)))) :: 32 word), mm)"
proof -
  from assms(5,6) have hit: "found_at pattern_bytes msk (module_contents mm) p" by simp
  have low: "\<forall>q < p. \<not> found_at pattern_bytes msk (module_contents mm) q"
  proof (intro allI impI)
    fix q assume "q < p"
    with assms(5) have "int q + int (length pattern) \<le> module_size mm" "q \<noteq> p" by linarith+
    with assms(6) show "\<not> found_at pattern_bytes msk (module_contents mm) q" by simp
  qed
  from assms(7,8,9) have w: "int (length pattern) \<le> whole" by linarith
  have a: "manual_scan_aob_chunked chunk_size mm pattern rel_offset additional
           = Some (module_base mm + int p + additional
                     + sint (word_of_int (le_uint (take 4 (drop (p + nat rel_offset)
                            (module_contents mm)))) :: 32 word), mm)"
    using assms(1,2,7,5) hit low assms(3,4) by (rule manual_scan_finds_lowest)
  have b: "manual_scan_aob_chunked whole mm pattern rel_offset additional
           = Some (module_base mm + int p + additional
                     + sint (word_of_int (le_uint (take 4 (drop (p + nat rel_offset)
                            (module_contents mm)))) :: 32 word), mm)"
    using assms(1,2) w assms(5) hit low assms(3,4) by (rule manual_scan_finds_lowest)
  from a b show ?thesis by simp
qed

theorem chunked_scan_same_as_whole_witness:
  "manual_scan_aob_chunked 7 sig_module sig_pattern 3 7
     = manual_scan_aob_chunked CHUNK_SIZE sig_module sig_pattern 3 7
   \<and> manual_scan_aob_chunked 7 sig_module sig_pattern 3 7 = Some (4097 + 7 + 0x100, sig_module)"
proof -
  have uniq: "\<forall>q. int q + int (length sig_pattern) \<le> module_size sig_module \<longrightarrow>
     (found_at [0x48, 0x8B, 0x3D, 0, 0, 0, 0] [True, True, True, False, False, False, False]
        (module_contents sig_module) q \<longleftrightarrow> q = 1)"
  proof (intro allI impI)
    fix q :: nat
    assume "int q + int (length sig_pattern) \<le> module_size sig_module"
    then have "q < 4" by (simp add: sig_pattern_def sig_module_def)
    then show "found_at [0x48, 0x8B, 0x3D, 0, 0, 0, 0] [True, True, True, False, False, False, False]
        (module_contents sig_module) q \<longleftrightarrow> q = 1"
      by (rule sig_module_matches)
  qed
  have rel: "sint (word_of_int (le_uint (take 4 (drop (1 + nat 3) (module_contents sig_module)))) :: 32 word) = 0x100"
    by (simp add: sig_module_contents le_uint_def)
  have "manual_scan_aob_chunked 7 sig_module sig_pattern 3 7
           = manual_scan_aob_chunked CHUNK_SIZE sig_module sig_pattern 3 7
         \<and> manual_scan_aob_chunked 7 sig_module sig_pattern 3 7
           = Some (module_base sig_module + int 1 + 7
                     + sint (word_of_int (le_uint (take 4 (drop (1 + nat 3)
                            (module_contents sig_module)))) :: 32 word), sig_module)"
    by (rule chunked_scan_same_as_whole [OF sig_module_readable sig_pattern_parse _ _ _ uniq])
      (simp_all add: sig_pattern_def sig_module_def CHUNK_SIZE_def)
  then show ?thesis unfolding rel sig_module_base by auto
qed

section \<open>Resolving the address at a match\<close>

lemma read_bytes_nonempty:
  assumes "read_bytes mm addr n = (chunk, mm')" "chunk \<noteq> []"
  shows "\<exists>p. pm mm = Some p \<and> pm_read_bytes p addr n = Some chunk"
  using assms by (auto simp: read_bytes_def split: option.splits)

lemma pm_read_bytes_sub:
  assumes "pm_read_bytes p addr n = Some chunk" "k + 4 \<le> length chunk"
  shows "pm_read_bytes p (addr + int k) 4 = Some (take 4 (drop k chunk))"
proof -
  from assms(1) have rd: "\<forall>j < nat n. readable p (addr + int j)"
    and ch: "chunk = map (\<lambda>j. content p (addr + int j)) [0..<nat n]"
    by (auto simp: pm_read_bytes_def list_all_iff split: if_splits)
  from ch have len: "length chunk = nat n" by simp
  have "\<forall>j < 4. readable p (addr + int k + int j)"
  proof (intro allI impI)
    fix j :: nat assume "j < 4"
    with assms(2) len have "k + j < nat n" by linarith
    with rd have "readable p (addr + int (k + j))" by blast
    then show "readable p (addr + int k + int j)" by (simp add: add.assoc)
  qed
  then have ok: "list_all (\<lambda>j. readable p (addr + int k + int j)) [0..<nat 4]"
    by (simp add: list_all_iff)
  have "map (\<lambda>j. content p (addr + int k + int j)) [0..<nat 4] = take 4 (drop k chunk)"
  proof (rule nth_equalityI)
    show "length (map (\<lambda>j. content p (addr + int k + int j)) [0..<nat 4])
            = length (take 4 (drop k chunk))"
      using assms(2) by simp
  next
    fix i assume "i < length (map (\<lambda>j. content p (addr + int k + int j)) [0..<nat 4])"
    then have i: "i < 4" by simp
    with assms(2) len have "k + i < nat n" by linarith
    with i show "map (\<lambda>j. content p (addr + int k + int j)) [0..<nat 4] ! i
                   = take 4 (drop k chunk) ! i"
      unfolding ch by (simp add: add.assoc)
  qed
  with ok show ?thesis by (simp add: pm_read_bytes_def)
qed

lemma py_slice_four:
  assumes "0 \<le> a" "length (py_slice xs a (a + 4)) = 4"
  shows "a + 4 \<le> int (length xs)"
  using assms by (auto simp: py_slice_def Let_def min_def split: if_splits)

lemma search_chunk_matched:
  assumes "search_chunk pattern_bytes msk rel_offset additional addr chunk = Some (Matched P A)"
    and "0 \<le> rel_offset"
  shows "\<exists>i. P = addr + int i \<and> i + nat rel_offset + 4 \<le> length chunk
           \<and> A = P + additional
                 + sint (word_of_int (le_uint (take 4 (drop (i + nat rel_offset) chunk))) :: 32 word)"
proof -
  from assms(1) obtain i v where
    un: "unpack_i32_le (py_slice chunk (int i + rel_offset) (int i + rel_offset + 4)) = Some v"
    and P: "P = addr + int i"
    and A: "A = P + additional + v"
    by (auto simp: search_chunk_def Let_def split: option.splits)
  let ?a = "int i + rel_offset"
  from un have l4: "length (py_slice chunk ?a (?a + 4)) = 4"
    by (simp add: unpack_i32_le_def split: if_splits)
  have a0: "0 \<le> ?a" using assms(2) by simp
  from a0 l4 have a4: "?a + 4 \<le> int (length chunk)" by (rule py_slice_four)
  from a0 a4 have sl: "py_slice chunk ?a (?a + 4) = take 4 (drop (nat ?a) chunk)"
    by (rule py_slice_inside)
  have nat_eq: "nat ?a = i + nat rel_offset" using assms(2) by linarith
  from a4 nat_eq a0 have bound: "i + nat rel_offset + 4 \<le> length chunk" by linarith
  from A un l4 sl nat_eq
  have "A = P + additional
           + sint (word_of_int (le_uint (take 4 (drop (i + nat rel_offset) chunk))) :: 32 word)"
    by (simp add: unpack_i32_le_def del: length_take)
  with P bound show ?thesis by blast
qed

lemma read_bytes_pm: "pm (snd (read_bytes mm addr n)) = pm mm"
  by (simp add: read_bytes_def split: option.splits)

lemma scan_loop_matched:
  assumes ret: "scan_loop chunk_size pattern_bytes msk rel_offset additional mm offset = Some y"
  shows "0 \<le> rel_offset \<longrightarrow> (\<forall>P A mm'. y = (Matched P A, mm') \<longrightarrow>
           (\<exists>p rel. pm mm = Some p \<and> pm_read_int p (P + rel_offset) = Some rel
                \<and> A = P + additional + rel))"
proof (rule scan_loop.raw_induct
    [where P = "\<lambda>c pb m r a st off y. 0 \<le> r \<longrightarrow> (\<forall>P A mm'. y = (Matched P A, mm') \<longrightarrow>
           (\<exists>p rel. pm st = Some p \<and> pm_read_int p (P + r) = Some rel \<and> A = P + a + rel))",
      OF _ ret], goal_cases)
  case (1 loop c pb m r a st off z)
  show ?case
  proof (intro impI allI)
    fix P A mm'
    assume r0: "0 \<le> r" and z: "z = (Matched P A, mm')"
    let ?ccs = "min c (module_size st - off)"
    obtain chunk st' where rd: "read_bytes st (module_base st + off) ?ccs = (chunk, st')"
      by (cases "read_bytes st (module_base st + off) ?ccs")
    have pm': "pm st' = pm st"
      using read_bytes_pm [of st "module_base st + off" ?ccs] rd by simp
    from 1(2) z have lt: "off < module_size st" by (auto split: if_splits)
    show "\<exists>p rel. pm st = Some p \<and> pm_read_int p (P + r) = Some rel \<and> A = P + a + rel"
    proof (cases "chunk = [] \<or> length chunk < length pb")
      case True
      with 1(2) lt rd have "loop c pb m r a st' (off + (?ccs - (int (length pb) - 1))) = Some z"
        by (simp add: Let_def)
      from 1(1) [OF this] r0 z pm' show ?thesis by simp
    next
      case False
      show ?thesis
      proof (cases "search_chunk pb m r a (module_base st + off) chunk")
        case None
        with 1(2) lt rd False
        have "loop c pb m r a st' (off + (?ccs - (int (length pb) - 1))) = Some z"
          by (simp add: Let_def)
        from 1(1) [OF this] r0 z pm' show ?thesis by simp
      next
        case (Some e)
        with 1(2) lt rd False have "z = (e, st')" by (simp add: Let_def)
        with z Some have sc: "search_chunk pb m r a (module_base st + off) chunk = Some (Matched P A)"
          by simp
        from search_chunk_matched [OF sc r0] obtain i where
          P: "P = module_base st + off + int i" and
          bound: "i + nat r + 4 \<le> length chunk" and
          A: "A = P + a + sint (word_of_int (le_uint (take 4 (drop (i + nat r) chunk))) :: 32 word)"
          by blast
        from False have "chunk \<noteq> []" by simp
        from read_bytes_nonempty [OF rd this] obtain p where
          p: "pm st = Some p" and rb: "pm_read_bytes p (module_base st + off) ?ccs = Some chunk"
          by blast
        from pm_read_bytes_sub [OF rb bound]
        have "pm_read_bytes p (module_base st + off + int (i + nat r)) 4
                = Some (take 4 (drop (i + nat r) chunk))" .
        moreover have "module_base st + off + int (i + nat r) = P + r"
          using P r0 by simp
        ultimately have "pm_read_int p (P + r)
            = Some (sint (word_of_int (le_uint (take 4 (drop (i + nat r) chunk))) :: 32 word))"
          by (simp add: pm_read_int_def)
        with p A show ?thesis by blast
      qed
    qed
  qed
qed

text \<open>
  C8. Both strategies resolve a match at \<open>P\<close> to \<open>P + additional + rel\<close>, where
  \<open>rel\<close> is the 4-byte little-endian signed integer that the process holds at
  \<open>P + rel_offset\<close> (what \<^verbatim>\<open>pm.read_int\<close> reads there): the manual loop, whenever it
  leaves with a match at \<open>P\<close> and the absolute address \<open>A\<close>, and \<^verbatim>\<open>scan_aob\<close> when
  the accelerated scan returns \<open>R\<close>. The relative offset is not negative (the pattern's
  invariant puts it within \<open>[0, length - 4]\<close>).
\<close>

theorem resolved_address:
  assumes "0 \<le> rel_offset"
  shows "(scan_loop chunk_size pattern_bytes msk rel_offset additional mm offset
            = Some (Matched P A, mm')
          \<longrightarrow> (\<exists>p rel. pm mm = Some p \<and> pm_read_int p (P + rel_offset) = Some rel
                  \<and> A = P + additional + rel))
       \<and> (pm mm = Some q \<and> module_size mm \<noteq> 0 \<and> R \<noteq> 0
            \<and> pm_read_int q (R + rel_offset) = Some rel'
          \<longrightarrow> scan_aob (AccelReturns (Some R)) mm pattern rel_offset additional
                = Some (R + additional + rel', mm))"
proof
  show "scan_loop chunk_size pattern_bytes msk rel_offset additional mm offset
            = Some (Matched P A, mm')
          \<longrightarrow> (\<exists>p rel. pm mm = Some p \<and> pm_read_int p (P + rel_offset) = Some rel
                  \<and> A = P + additional + rel)"
    using scan_loop_matched [of chunk_size pattern_bytes msk rel_offset additional mm offset
        "(Matched P A, mm')"] assms by blast
next
  show "pm mm = Some q \<and> module_size mm \<noteq> 0 \<and> R \<noteq> 0
            \<and> pm_read_int q (R + rel_offset) = Some rel'
          \<longrightarrow> scan_aob (AccelReturns (Some R)) mm pattern rel_offset additional
                = Some (R + additional + rel', mm)"
    by (simp add: scan_aob_def)
qed

text \<open>
  The spec's example: relative offset 3, constant 7 and the value \<open>0x100\<close> at \<open>P + 3\<close>,
  with \<open>P = 4097\<close>.
\<close>

lemma sig_module_read_int:
  "pm sig_module = Some q \<Longrightarrow> pm_read_int q (4097 + 3) = Some 0x100"
  by (auto simp: sig_module_def pm_read_int_def pm_read_bytes_def le_uint_def upt_rec)

lemma sig_module_loop:
  "scan_loop CHUNK_SIZE [0x48, 0x8B, 0x3D, 0, 0, 0, 0]
      [True, True, True, False, False, False, False] 3 7 sig_module 0
    = Some (Matched 4097 (4097 + 7 + 0x100), sig_module)"
proof -
  have rel: "sint (word_of_int (le_uint (take 4 (drop (1 + nat 3) (module_contents sig_module)))) :: 32 word) = 0x100"
    by (simp add: sig_module_contents le_uint_def)
  have "scan_loop CHUNK_SIZE [0x48, 0x8B, 0x3D, 0, 0, 0, 0]
      [True, True, True, False, False, False, False] 3 7 sig_module 0
    = Some (Matched (module_base sig_module + int 1)
         (module_base sig_module + int 1 + 7
            + sint (word_of_int (le_uint (take 4 (drop (1 + nat 3) (module_contents sig_module)))) :: 32 word)),
         sig_module)"
    by (rule scan_loop_finds_lowest [OF sig_module_readable])
      (simp_all add: CHUNK_SIZE_def sig_module_matches, simp add: sig_module_def)
  then show ?thesis unfolding rel sig_module_base by simp
qed

theorem resolved_address_witness:
  "\<exists>q. pm sig_module = Some q \<and> pm_read_int q (4097 + 3) = Some 0x100
     \<and> scan_loop CHUNK_SIZE [0x48, 0x8B, 0x3D, 0, 0, 0, 0]
          [True, True, True, False, False, False, False] 3 7 sig_module 0
        = Some (Matched 4097 (4097 + 7 + 0x100), sig_module)
     \<and> scan_aob (AccelReturns (Some 4097)) sig_module sig_pattern 3 7
        = Some (4097 + 7 + 0x100, sig_module)"
proof -
  obtain q where q: "pm sig_module = Some q" by (simp add: sig_module_def)
  have ri: "pm_read_int q (4097 + 3) = Some 0x100" using q by (rule sig_module_read_int)
  have ms: "module_size sig_module \<noteq> 0" by (simp add: sig_module_def)
  have "scan_aob (AccelReturns (Some 4097)) sig_module sig_pattern 3 7
        = Some (4097 + 7 + 0x100, sig_module)"
    using resolved_address [of 3 CHUNK_SIZE "[0x48, 0x8B, 0x3D, 0, 0, 0, 0]"
        "[True, True, True, False, False, False, False]" 7 sig_module 0 4097 "4097 + 7 + 0x100"
        sig_module q 4097 "0x100" sig_pattern]
      q ri ms by simp
  with q ri sig_module_loop show ?thesis by blast
qed

section \<open>A pattern that is absent\<close>

text \<open>
  On a readable module with at least one byte, a pattern of two or more parts that
  matches nowhere makes the scan run forever, whatever the chunk size from the pattern
  length upward: the offset reaches \<open>module_size - overlap\<close> and stays there.
\<close>

lemma long_enough: "n \<le> length xs \<Longrightarrow> 1 \<le> n \<Longrightarrow> \<not> (xs = [] \<or> length xs < n)"
  by (cases xs) auto

lemma scan_loop_absent:
  assumes rd: "module_readable mm"
    and L2: "2 \<le> length pattern_bytes"
    and Lc: "int (length pattern_bytes) \<le> chunk_size"
    and absent: "\<forall>q. int q + int (length pattern_bytes) \<le> module_size mm
                   \<longrightarrow> \<not> found_at pattern_bytes msk (module_contents mm) q"
  shows "0 \<le> offset \<Longrightarrow> offset < module_size mm \<Longrightarrow>
         scan_loop chunk_size pattern_bytes msk rel_offset additional mm offset = None"
proof (induction "nat (module_size mm - offset)" arbitrary: offset rule: less_induct)
  case less
  let ?L = "length pattern_bytes"
  let ?buf = "module_contents mm"
  let ?ccs = "min chunk_size (module_size mm - offset)"
  let ?next = "offset + (?ccs - (int ?L - 1))"
  from rd obtain p where p: "pm mm = Some p"
    by (auto simp: module_readable_def split: option.splits)
  have blen: "length ?buf = nat (module_size mm)" using p by (rule module_contents_length)
  have ccs0: "0 \<le> ?ccs" using less.prems Lc by simp
  have ccs_le: "offset + ?ccs \<le> module_size mm" by simp
  have rdc: "read_bytes mm (module_base mm + offset) ?ccs
               = (take (nat ?ccs) (drop (nat offset) ?buf), mm)"
    using rd less.prems(1) ccs0 ccs_le by (rule read_bytes_in_module)
  have win: "nat offset + nat ?ccs \<le> length ?buf"
    using blen less.prems(1) ccs0 ccs_le by linarith
  have clen: "length (take (nat ?ccs) (drop (nat offset) ?buf)) = nat ?ccs"
    using win by simp
  show ?case
  proof (cases "module_size mm - offset < int ?L")
    case True
    then have "?ccs < int ?L" by simp
    then have "nat ?ccs < ?L" using ccs0 by (simp only: nat_less_iff)
    then have short: "take (nat ?ccs) (drop (nat offset) ?buf) = []
                        \<or> length (take (nat ?ccs) (drop (nat offset) ?buf)) < ?L"
      unfolding clen by simp
    have nx: "?next = module_size mm - (int ?L - 1)" using True Lc by simp
    have "scan_loop chunk_size pattern_bytes msk rel_offset additional mm ?next = None"
    proof (rule scan_loop_no_progress)
      show "?next < module_size mm" unfolding nx using L2 by linarith
      show "1 \<le> ?L" using L2 by linarith
      show "min chunk_size (module_size mm - ?next) = int ?L - 1" unfolding nx using Lc by simp
    qed
    with less.prems(2) short show ?thesis
      by (subst scan_loop.simps) (simp only: Let_def rdc if_True prod.case)
  next
    case False
    then have ccs_ge: "int ?L \<le> ?ccs" using Lc by simp
    have Lm: "?L \<le> nat ?ccs" using ccs_ge by linarith
    have nonempty: "\<not> (take (nat ?ccs) (drop (nat offset) ?buf) = []
                     \<or> length (take (nat ?ccs) (drop (nat offset) ?buf)) < ?L)"
    proof (rule long_enough)
      show "?L \<le> length (take (nat ?ccs) (drop (nat offset) ?buf))" unfolding clen by (rule Lm)
      show "1 \<le> ?L" using L2 by linarith
    qed
    have miss: "\<forall>q. nat offset \<le> q \<and> q + ?L \<le> nat offset + nat ?ccs
                  \<longrightarrow> \<not> found_at pattern_bytes msk ?buf q"
    proof (intro allI impI)
      fix q assume "nat offset \<le> q \<and> q + ?L \<le> nat offset + nat ?ccs"
      with win blen have "q + ?L \<le> nat (module_size mm)" by simp
      with less.prems have "int q + int ?L \<le> module_size mm" by linarith
      with absent show "\<not> found_at pattern_bytes msk ?buf q" by simp
    qed
    have sc: "search_chunk pattern_bytes msk rel_offset additional (module_base mm + offset)
                (take (nat ?ccs) (drop (nat offset) ?buf)) = None"
      using win Lm miss by (rule search_chunk_miss)
    have n0: "0 \<le> ?next" using less.prems(1) ccs_ge by linarith
    have nlt: "?next < module_size mm" using ccs_le L2 by linarith
    have dec: "nat (module_size mm - ?next) < nat (module_size mm - offset)"
      using ccs_ge nlt by linarith
    have ih: "scan_loop chunk_size pattern_bytes msk rel_offset additional mm ?next = None"
      using dec n0 nlt by (rule less.hyps)
    show ?thesis
      apply (subst scan_loop.simps)
      using less.prems(2) nonempty sc ih
      apply (simp only: Let_def rdc if_True if_False prod.case option.case)
      done
  qed
qed

lemma manual_scan_absent_never_returns:
  assumes "module_readable mm" and "0 < module_size mm"
    and "parse_pattern pattern = Some (pattern_bytes, msk)"
    and "2 \<le> length pattern" and "int (length pattern) \<le> chunk_size"
    and "\<forall>q. int q + int (length pattern) \<le> module_size mm
            \<longrightarrow> \<not> found_at pattern_bytes msk (module_contents mm) q"
  shows "manual_scan_aob_chunked chunk_size mm pattern rel_offset additional = None"
proof -
  from assms(3) have len: "length pattern_bytes = length pattern"
    by (simp add: parse_pattern_length)
  have "scan_loop chunk_size pattern_bytes msk rel_offset additional mm 0 = None"
    using assms(1) assms(4,5,6) unfolding len [symmetric]
    by (rule scan_loop_absent) (simp_all add: assms(2))
  with assms(3) show ?thesis by (simp add: manual_scan_aob_chunked_def)
qed

lemma zero_module_search_wild:
  "search_chunk [0xAA, 0, 0xBB] [True, False, True] 0 0 4096 [0, 0, 0] = None"
  by (simp add: search_chunk_def found_at_def upt_rec)

text \<open>
  C7. The claim: the masked compare matches exactly where every non-wildcard byte agrees
  (\<open>found_at_iff\<close>), the scan returns the lowest such offset
  (\<open>manual_scan_finds_lowest\<close>), and it signals PatternNotFound when there is none.
  The last part fails on the code: on the module of three zero bytes the pattern
  \<^verbatim>\<open>"AA ?? BB"\<close> matches nowhere, \<open>offset\<close> becomes \<open>3 - 2 = 1\<close> after the first
  chunk, the next chunk has two bytes, and \<open>offset\<close> is advanced by \<open>2 - 2 = 0\<close> from
  then on. The scan never returns.
\<close>

theorem manual_scan_wildcard_pattern_never_returns:
  "manual_scan_aob zero_module [Hex 0xAA, Wildcard, Hex 0xBB] 0 0 = None"
proof -
  have stuck: "scan_loop CHUNK_SIZE [0xAA, 0, 0xBB] [True, False, True] 0 0 zero_module 1 = None"
    by (rule scan_loop_no_progress) (simp_all add: CHUNK_SIZE_def zero_module_fields)
  have "scan_loop CHUNK_SIZE [0xAA, 0, 0xBB] [True, False, True] 0 0 zero_module 0
          = scan_loop CHUNK_SIZE [0xAA, 0, 0xBB] [True, False, True] 0 0 zero_module 1"
    by (subst scan_loop.simps)
      (simp add: CHUNK_SIZE_def Let_def zero_module_fields zero_module_read zero_module_search_wild)
  with stuck show ?thesis
    by (simp add: manual_scan_aob_def manual_scan_aob_chunked_def)
qed

section \<open>scan_aob: the accelerated scan and the fallback\<close>

lemma module_contents_last_error [simp]:
  "module_contents (mm\<lparr>last_error := e\<rparr>) = module_contents mm"
  by (simp add: module_contents_def split: option.splits)

lemma module_readable_last_error [simp]:
  "module_readable (mm\<lparr>last_error := e\<rparr>) = module_readable mm"
  by (simp add: module_readable_def split: option.splits)

lemma sig_module_manual_scan:
  "manual_scan_aob (sig_module\<lparr>last_error := e\<rparr>) sig_pattern 3 7
     = Some (4097 + 7 + 0x100, sig_module\<lparr>last_error := e\<rparr>)"
proof -
  let ?mm = "sig_module\<lparr>last_error := e\<rparr>"
  have rel: "sint (word_of_int (le_uint (take 4 (drop (1 + nat 3) (module_contents ?mm)))) :: 32 word) = 0x100"
    by (simp add: sig_module_contents le_uint_def)
  have rdb: "module_readable ?mm" by (simp add: sig_module_readable)
  have hit: "found_at [0x48, 0x8B, 0x3D, 0, 0, 0, 0] [True, True, True, False, False, False, False]
        (module_contents ?mm) 1"
    by (simp add: sig_module_matches)
  have low: "\<forall>q < 1. \<not> found_at [0x48, 0x8B, 0x3D, 0, 0, 0, 0] [True, True, True, False, False, False, False]
        (module_contents ?mm) q"
    by (simp add: sig_module_matches)
  have "manual_scan_aob_chunked CHUNK_SIZE ?mm sig_pattern 3 7
           = Some (module_base ?mm + int 1 + 7
                     + sint (word_of_int (le_uint (take 4 (drop (1 + nat 3)
                            (module_contents ?mm)))) :: 32 word), ?mm)"
    by (rule manual_scan_finds_lowest [OF rdb sig_pattern_parse _ _ hit low])
      (simp_all add: sig_pattern_def sig_module_def CHUNK_SIZE_def)
  then show ?thesis unfolding rel by (simp add: manual_scan_aob_def sig_module_base)
qed

text \<open>
  C4, as stated: when the accelerated scan fails for any reason, including its not
  finding the pattern, the manual scan is attempted. When the accelerated scan returns
  \<^verbatim>\<open>None\<close>, \<^verbatim>\<open>scan_aob\<close> returns 0 with "Pattern not found" at once, on a module
  where the manual scan finds the pattern.
\<close>

theorem accelerated_no_match_skips_manual:
  "scan_aob (AccelReturns None) sig_module sig_pattern 3 7
     = Some (0, sig_module\<lparr>last_error := PatternNotFound\<rparr>)
   \<and> manual_scan_aob (sig_module\<lparr>last_error := PatternScanFailed\<rparr>) sig_pattern 3 7
     = Some (4097 + 7 + 0x100, sig_module\<lparr>last_error := PatternScanFailed\<rparr>)"
proof
  show "scan_aob (AccelReturns None) sig_module sig_pattern 3 7
     = Some (0, sig_module\<lparr>last_error := PatternNotFound\<rparr>)"
    by (simp add: scan_aob_def sig_module_def)
  show "manual_scan_aob (sig_module\<lparr>last_error := PatternScanFailed\<rparr>) sig_pattern 3 7
     = Some (4097 + 7 + 0x100, sig_module\<lparr>last_error := PatternScanFailed\<rparr>)"
    by (rule sig_module_manual_scan)
qed

lemma manual_scan_aob_outcomes:
  assumes "manual_scan_aob_chunked c mm pattern r a = Some (v, mm')"
  shows "(v = 0 \<and> last_error mm' = PatternNotFound)
       \<or> (v = 0 \<and> last_error mm' = ManualScanFailed)
       \<or> (\<exists>pattern_bytes msk P. parse_pattern pattern = Some (pattern_bytes, msk)
             \<and> scan_loop c pattern_bytes msk r a mm 0 = Some (Matched P v, mm'))"
  using assms
  by (auto simp: manual_scan_aob_chunked_def split: option.splits prod.splits loop_exit.splits)

text \<open>
  When the loop does return without a match: a pattern of one part has no overlap, so
  the offset moves on by a whole chunk and the loop ends at the module's end.
\<close>

lemma scan_loop_single_absent:
  assumes rd: "module_readable mm"
    and L: "length pattern_bytes = 1"
    and c: "1 \<le> chunk_size"
    and absent: "\<forall>q. int q + 1 \<le> module_size mm
                   \<longrightarrow> \<not> found_at pattern_bytes msk (module_contents mm) q"
  shows "0 \<le> offset \<Longrightarrow>
         scan_loop chunk_size pattern_bytes msk rel_offset additional mm offset
           = Some (Exhausted, mm)"
proof (induction "nat (module_size mm - offset)" arbitrary: offset rule: less_induct)
  case less
  show ?case
  proof (cases "offset < module_size mm")
    case False
    then show ?thesis by (subst scan_loop.simps) simp
  next
    case True
    let ?buf = "module_contents mm"
    let ?ccs = "min chunk_size (module_size mm - offset)"
    let ?next = "offset + (?ccs - (int (length pattern_bytes) - 1))"
    from rd obtain p where p: "pm mm = Some p"
      by (auto simp: module_readable_def split: option.splits)
    have blen: "length ?buf = nat (module_size mm)" using p by (rule module_contents_length)
    have ccs1: "1 \<le> ?ccs" using True c by simp
    have ccs0: "0 \<le> ?ccs" using ccs1 by linarith
    have ccs_le: "offset + ?ccs \<le> module_size mm" by simp
    have rdc: "read_bytes mm (module_base mm + offset) ?ccs
                 = (take (nat ?ccs) (drop (nat offset) ?buf), mm)"
      using rd less.prems(1) ccs0 ccs_le by (rule read_bytes_in_module)
    have win: "nat offset + nat ?ccs \<le> length ?buf"
      using blen less.prems(1) ccs0 ccs_le by linarith
    have clen: "length (take (nat ?ccs) (drop (nat offset) ?buf)) = nat ?ccs"
      using win by simp
    have Lm: "length pattern_bytes \<le> nat ?ccs" using ccs1 L by linarith
    have nonempty: "\<not> (take (nat ?ccs) (drop (nat offset) ?buf) = []
                     \<or> length (take (nat ?ccs) (drop (nat offset) ?buf)) < length pattern_bytes)"
    proof (rule long_enough)
      show "length pattern_bytes \<le> length (take (nat ?ccs) (drop (nat offset) ?buf))"
        unfolding clen by (rule Lm)
      show "1 \<le> length pattern_bytes" using L by simp
    qed
    have miss: "\<forall>q. nat offset \<le> q \<and> q + length pattern_bytes \<le> nat offset + nat ?ccs
                  \<longrightarrow> \<not> found_at pattern_bytes msk ?buf q"
    proof (intro allI impI)
      fix q assume "nat offset \<le> q \<and> q + length pattern_bytes \<le> nat offset + nat ?ccs"
      with win blen L have "q + 1 \<le> nat (module_size mm)" by simp
      with True less.prems have "int q + 1 \<le> module_size mm" by linarith
      with absent show "\<not> found_at pattern_bytes msk ?buf q" by simp
    qed
    have sc: "search_chunk pattern_bytes msk rel_offset additional (module_base mm + offset)
                (take (nat ?ccs) (drop (nat offset) ?buf)) = None"
      using win Lm miss by (rule search_chunk_miss)
    have nx: "?next = offset + ?ccs" using L by simp
    have n0: "0 \<le> ?next" unfolding nx using less.prems(1) ccs0 by linarith
    have dec: "nat (module_size mm - ?next) < nat (module_size mm - offset)"
      unfolding nx using ccs1 True by linarith
    have ih: "scan_loop chunk_size pattern_bytes msk rel_offset additional mm ?next
                = Some (Exhausted, mm)"
      using dec n0 by (rule less.hyps)
    show ?thesis
      apply (subst scan_loop.simps)
      using True nonempty sc ih
      apply (simp only: Let_def rdc if_True if_False prod.case option.case)
      done
  qed
qed

lemma manual_scan_single_absent:
  assumes "module_readable mm" and "length pattern = 1"
    and "parse_pattern pattern = Some (pattern_bytes, msk)"
    and "1 \<le> chunk_size"
    and "\<forall>q. int q + 1 \<le> module_size mm
            \<longrightarrow> \<not> found_at pattern_bytes msk (module_contents mm) q"
  shows "manual_scan_aob_chunked chunk_size mm pattern rel_offset additional
           = Some (0, mm\<lparr>last_error := PatternNotFound\<rparr>)"
proof -
  from assms(2,3) have len: "length pattern_bytes = 1"
    by (simp add: parse_pattern_length)
  have "scan_loop chunk_size pattern_bytes msk rel_offset additional mm 0 = Some (Exhausted, mm)"
    using assms(1) len assms(4,5) by (rule scan_loop_single_absent) simp
  with assms(3) show ?thesis by (simp add: manual_scan_aob_chunked_def)
qed

lemma manual_scan_invalid_pattern:
  "parse_pattern pattern = None \<Longrightarrow>
   manual_scan_aob_chunked chunk_size mm pattern rel_offset additional
     = Some (0, mm\<lparr>last_error := ManualScanFailed\<rparr>)"
  by (simp add: manual_scan_aob_chunked_def)

lemma zero_module_contents: "module_contents zero_module = [0, 0, 0]"
  by (simp add: module_contents_def zero_module_def upt_rec)

lemma zero_module_readable: "module_readable zero_module"
  by (simp add: module_readable_def zero_module_def upt_rec)

text \<open>
  C4, amended: on an attached manager with a module size other than 0, when the
  accelerated scan raises (in \<^verbatim>\<open>pattern_scan_module\<close> or in \<^verbatim>\<open>read_int\<close>), the manual
  scan is run and \<^verbatim>\<open>scan_aob\<close> returns what it returns: on a readable module the
  address resolved at the lowest match when there is one, 0 with the manual scan's own
  error otherwise (ManualScanFailed for a pattern that does not parse, PatternNotFound
  for an absent pattern of one part). When the accelerated scan finds no match
  (\<^verbatim>\<open>None\<close> or 0), \<^verbatim>\<open>scan_aob\<close> returns 0 with PatternNotFound and the manual scan is
  not run. What the manual scan does for an absent pattern of two or more parts is the
  matter of C1 and is left out here.
\<close>

theorem scan_aob_fallback:
  assumes "pm mm = Some p" and "module_size mm \<noteq> 0"
  shows "scan_aob AccelRaises mm pattern rel_offset additional
           = manual_scan_aob (mm\<lparr>last_error := PatternScanFailed\<rparr>) pattern rel_offset additional
       \<and> (R \<noteq> 0 \<and> pm_read_int p (R + rel_offset) = None \<longrightarrow>
            scan_aob (AccelReturns (Some R)) mm pattern rel_offset additional
              = manual_scan_aob (mm\<lparr>last_error := PatternScanFailed\<rparr>) pattern rel_offset additional)
       \<and> scan_aob (AccelReturns None) mm pattern rel_offset additional
           = Some (0, mm\<lparr>last_error := PatternNotFound\<rparr>)
       \<and> scan_aob (AccelReturns (Some 0)) mm pattern rel_offset additional
           = Some (0, mm\<lparr>last_error := PatternNotFound\<rparr>)
       \<and> (parse_pattern pattern = None \<longrightarrow>
            scan_aob AccelRaises mm pattern rel_offset additional
              = Some (0, mm\<lparr>last_error := ManualScanFailed\<rparr>))
       \<and> (module_readable mm \<and> length pattern = 1
            \<and> parse_pattern pattern = Some (pattern_bytes, msk)
            \<and> (\<forall>q. int q + 1 \<le> module_size mm
                   \<longrightarrow> \<not> found_at pattern_bytes msk (module_contents mm) q) \<longrightarrow>
            scan_aob AccelRaises mm pattern rel_offset additional
              = Some (0, mm\<lparr>last_error := PatternNotFound\<rparr>))
       \<and> (module_readable mm \<and> parse_pattern pattern = Some (pattern_bytes, msk)
            \<and> int (length pattern) \<le> CHUNK_SIZE
            \<and> int p0 + int (length pattern) \<le> module_size mm
            \<and> found_at pattern_bytes msk (module_contents mm) p0
            \<and> (\<forall>q < p0. \<not> found_at pattern_bytes msk (module_contents mm) q)
            \<and> 0 \<le> rel_offset \<and> rel_offset + 4 \<le> int (length pattern) \<longrightarrow>
            scan_aob AccelRaises mm pattern rel_offset additional
              = Some (module_base mm + int p0 + additional
                        + sint (word_of_int (le_uint (take 4 (drop (p0 + nat rel_offset)
                               (module_contents mm)))) :: 32 word),
                      mm\<lparr>last_error := PatternScanFailed\<rparr>))"
proof -
  let ?mm = "mm\<lparr>last_error := PatternScanFailed\<rparr>"
  have fall: "scan_aob AccelRaises mm pattern rel_offset additional
           = manual_scan_aob ?mm pattern rel_offset additional"
    using assms by (simp add: scan_aob_def)
  have fall2: "R \<noteq> 0 \<and> pm_read_int p (R + rel_offset) = None \<longrightarrow>
            scan_aob (AccelReturns (Some R)) mm pattern rel_offset additional
              = manual_scan_aob ?mm pattern rel_offset additional"
    using assms by (simp add: scan_aob_def)
  have none: "scan_aob (AccelReturns None) mm pattern rel_offset additional
           = Some (0, mm\<lparr>last_error := PatternNotFound\<rparr>)"
    using assms by (simp add: scan_aob_def)
  have zero: "scan_aob (AccelReturns (Some 0)) mm pattern rel_offset additional
           = Some (0, mm\<lparr>last_error := PatternNotFound\<rparr>)"
    using assms by (simp add: scan_aob_def)
  have invalid: "parse_pattern pattern = None \<longrightarrow>
            scan_aob AccelRaises mm pattern rel_offset additional
              = Some (0, mm\<lparr>last_error := ManualScanFailed\<rparr>)"
    unfolding fall manual_scan_aob_def
    by (simp add: manual_scan_invalid_pattern)
  have single: "module_readable mm \<and> length pattern = 1
            \<and> parse_pattern pattern = Some (pattern_bytes, msk)
            \<and> (\<forall>q. int q + 1 \<le> module_size mm
                   \<longrightarrow> \<not> found_at pattern_bytes msk (module_contents mm) q) \<longrightarrow>
            scan_aob AccelRaises mm pattern rel_offset additional
              = Some (0, mm\<lparr>last_error := PatternNotFound\<rparr>)"
  proof
    assume h: "module_readable mm \<and> length pattern = 1
            \<and> parse_pattern pattern = Some (pattern_bytes, msk)
            \<and> (\<forall>q. int q + 1 \<le> module_size mm
                   \<longrightarrow> \<not> found_at pattern_bytes msk (module_contents mm) q)"
    have "manual_scan_aob_chunked CHUNK_SIZE ?mm pattern rel_offset additional
            = Some (0, ?mm\<lparr>last_error := PatternNotFound\<rparr>)"
      by (rule manual_scan_single_absent [where pattern_bytes = pattern_bytes and msk = msk])
        (use h in \<open>simp_all add: CHUNK_SIZE_def\<close>)
    then show "scan_aob AccelRaises mm pattern rel_offset additional
              = Some (0, mm\<lparr>last_error := PatternNotFound\<rparr>)"
      unfolding fall manual_scan_aob_def by simp
  qed
  have found: "module_readable mm \<and> parse_pattern pattern = Some (pattern_bytes, msk)
            \<and> int (length pattern) \<le> CHUNK_SIZE
            \<and> int p0 + int (length pattern) \<le> module_size mm
            \<and> found_at pattern_bytes msk (module_contents mm) p0
            \<and> (\<forall>q < p0. \<not> found_at pattern_bytes msk (module_contents mm) q)
            \<and> 0 \<le> rel_offset \<and> rel_offset + 4 \<le> int (length pattern) \<longrightarrow>
            scan_aob AccelRaises mm pattern rel_offset additional
              = Some (module_base mm + int p0 + additional
                        + sint (word_of_int (le_uint (take 4 (drop (p0 + nat rel_offset)
                               (module_contents mm)))) :: 32 word), ?mm)"
  proof
    assume h: "module_readable mm \<and> parse_pattern pattern = Some (pattern_bytes, msk)
            \<and> int (length pattern) \<le> CHUNK_SIZE
            \<and> int p0 + int (length pattern) \<le> module_size mm
            \<and> found_at pattern_bytes msk (module_contents mm) p0
            \<and> (\<forall>q < p0. \<not> found_at pattern_bytes msk (module_contents mm) q)
            \<and> 0 \<le> rel_offset \<and> rel_offset + 4 \<le> int (length pattern)"
    have "manual_scan_aob_chunked CHUNK_SIZE ?mm pattern rel_offset additional
           = Some (module_base ?mm + int p0 + additional
                     + sint (word_of_int (le_uint (take 4 (drop (p0 + nat rel_offset)
                            (module_contents ?mm)))) :: 32 word), ?mm)"
      by (rule manual_scan_finds_lowest [where pattern_bytes = pattern_bytes and msk = msk])
        (use h in simp_all)
    then show "scan_aob AccelRaises mm pattern rel_offset additional
              = Some (module_base mm + int p0 + additional
                        + sint (word_of_int (le_uint (take 4 (drop (p0 + nat rel_offset)
                               (module_contents mm)))) :: 32 word), ?mm)"
      unfolding fall manual_scan_aob_def by simp
  qed
  from fall fall2 none zero invalid single found show ?thesis by blast
qed

theorem scan_aob_fallback_witness:
  "scan_aob AccelRaises sig_module sig_pattern 3 7
     = Some (4097 + 7 + 0x100, sig_module\<lparr>last_error := PatternScanFailed\<rparr>)
   \<and> scan_aob AccelRaises zero_module [Hex 1] 0 0
     = Some (0, zero_module\<lparr>last_error := PatternNotFound\<rparr>)
   \<and> scan_aob AccelRaises zero_module [Hex 1, Invalid] 0 0
     = Some (0, zero_module\<lparr>last_error := ManualScanFailed\<rparr>)"
proof -
  obtain q where q: "pm sig_module = Some q" by (simp add: sig_module_def)
  have ms: "module_size sig_module \<noteq> 0" by (simp add: sig_module_def)
  from scan_aob_fallback [OF q ms, of sig_pattern 3 7]
  have "scan_aob AccelRaises sig_module sig_pattern 3 7
           = manual_scan_aob (sig_module\<lparr>last_error := PatternScanFailed\<rparr>) sig_pattern 3 7"
    by blast
  then have a: "scan_aob AccelRaises sig_module sig_pattern 3 7
     = Some (4097 + 7 + 0x100, sig_module\<lparr>last_error := PatternScanFailed\<rparr>)"
    by (simp only: sig_module_manual_scan)
  obtain z where z: "pm zero_module = Some z" by (simp add: zero_module_def)
  have mz: "module_size zero_module \<noteq> 0" by (simp add: zero_module_fields)
  have absent: "\<forall>q. int q + 1 \<le> module_size zero_module
                   \<longrightarrow> \<not> found_at [1] [True] (module_contents zero_module) q"
    by (simp add: found_at_def zero_module_contents zero_module_fields nth_Cons split: nat.splits)
  have "module_readable zero_module \<and> length [Hex 1] = 1
            \<and> parse_pattern [Hex 1] = Some ([1], [True])
            \<and> (\<forall>q. int q + 1 \<le> module_size zero_module
                   \<longrightarrow> \<not> found_at [1] [True] (module_contents zero_module) q)"
    using zero_module_readable absent by simp
  with scan_aob_fallback [OF z mz, of "[Hex 1]" 0 0 _ "[1]" "[True]"]
  have b: "scan_aob AccelRaises zero_module [Hex 1] 0 0
     = Some (0, zero_module\<lparr>last_error := PatternNotFound\<rparr>)"
    by blast
  have "parse_pattern [Hex 1, Invalid] = None" by simp
  with scan_aob_fallback [OF z mz, of "[Hex 1, Invalid]" 0 0]
  have c: "scan_aob AccelRaises zero_module [Hex 1, Invalid] 0 0
     = Some (0, zero_module\<lparr>last_error := ManualScanFailed\<rparr>)"
    by blast
  from a b c show ?thesis by blast
qed

section \<open>Unlocking graces\<close>

lemma unlock_loop_append:
  "unlock_loop K fb (xs @ ys) mm u
     = (case unlock_loop K fb xs mm u of (u', mm') \<Rightarrow> unlock_loop K fb ys mm' u')"
  by (induction K fb xs mm u rule: unlock_loop.induct)
    (auto simp: Let_def split: prod.splits)

lemma write_byte_pm:
  "pm mm = Some p \<Longrightarrow>
   \<exists>p'. pm (snd (write_byte mm a v)) = Some p' \<and> readable p' = readable p \<and> writable p' = writable p"
  by (simp add: write_byte_def)

lemma unlock_loop_pm:
  "pm mm = Some p \<Longrightarrow>
   \<exists>p'. pm (snd (unlock_loop K fb xs mm u)) = Some p' \<and> readable p' = readable p
        \<and> writable p' = writable p"
proof (induction K fb xs mm u arbitrary: p rule: unlock_loop.induct)
  case (1 K fb mm u)
  then show ?case by simp
next
  case (2 K fb grace_name var rest mm u)
  show ?case
  proof (cases "var \<and> grace_name \<in> dom K")
    case False
    with 2 show ?thesis by auto
  next
    case True
    obtain offset bit_index where k: "the (K grace_name) = (offset, bit_index)"
      by (cases "the (K grace_name)")
    let ?addr = "fb + offset"
    let ?new = "read_byte mm ?addr OR push_bit bit_index 1"
    obtain ok mm' where w: "write_byte mm ?addr ?new = (ok, mm')"
      by (cases "write_byte mm ?addr ?new")
    from write_byte_pm [OF "2.prems", of ?addr ?new] w obtain p' where
      p': "pm mm' = Some p'" "readable p' = readable p" "writable p' = writable p" by auto
    from "2.IH"(1) [OF True k [symmetric] refl refl refl w [symmetric] p'(1)]
    obtain p'' where "pm (snd (unlock_loop K fb rest mm' (if ok then u @ [grace_name] else u))) = Some p''"
      "readable p'' = readable p'" "writable p'' = writable p'" by blast
    with True k w p' show ?thesis by (auto simp: Let_def)
  qed
qed

lemma flag_base_resolved: "get_event_flag_base (flag_tool g) = 0x10000"
  by (simp add: get_event_flag_base_def flag_tool_def flag_game_def read_int64_def
      pm_read_longlong_def pm_read_bytes_def le_uint_def upt_rec Let_def)

lemma limgrave_lookup:
  "map_of LIMGRAVE_GRACES ''The First Step'' = Some (0xCBE, 2)"
  "map_of LIMGRAVE_GRACES ''Gatefront'' = Some (0xCBF, 0)"
  "map_of LIMGRAVE_GRACES ''Seaside Ruins'' = Some (0xCC0, 6)"
  by (simp_all add: LIMGRAVE_GRACES_def)

text \<open>
  C2, as stated: when reading the current byte fails, the flag is recorded as ReadFailed
  and no write is performed for it. In the code \<^verbatim>\<open>read_byte\<close> swallows the failure
  and returns 0, and the write goes ahead: with the byte of "The First Step" unreadable
  and holding \<open>0xFF\<close>, the byte is overwritten with \<open>1 << 2 = 4\<close> and the name is
  listed as unlocked.
\<close>

theorem unlock_writes_after_failed_read:
  "map_option (\<lambda>p. readable p 0x10CBE) (pm unreadable_game) = Some False
   \<and> map_option (\<lambda>p. content p 0x10CBE) (pm unreadable_game) = Some 0xFF
   \<and> fst (unlock_loop (map_of LIMGRAVE_GRACES) 0x10000 [(''The First Step'', True)]
            unreadable_game []) = [''The First Step'']
   \<and> map_option (\<lambda>p. content p 0x10CBE)
        (pm (snd (unlock_loop (map_of LIMGRAVE_GRACES) 0x10000 [(''The First Step'', True)]
                    unreadable_game []))) = Some 4"
  by (simp add: unreadable_game_def limgrave_lookup domI read_byte_def write_byte_def Let_def)

text \<open>
  One step of the loop at a ticked, known flag whose byte cannot be read, reached after
  the flags \<open>before\<close>: which call on the remaining flags it comes down to.
\<close>

lemma unlock_read_failure:
  assumes "KNOWN_GRACES grace_name = Some (offset, bit_index)"
    and "pm mm = Some p" and "\<not> readable p (flag_base + offset)"
    and "unlock_loop KNOWN_GRACES flag_base before mm unlocked = (unlocked1, mm1)"
  shows "\<exists>p1. pm mm1 = Some p1
           \<and> unlock_loop KNOWN_GRACES flag_base (before @ (grace_name, True) # rest) mm unlocked
             = (if writable p (flag_base + offset)
                then unlock_loop KNOWN_GRACES flag_base rest
                       (mm1\<lparr>pm := Some (p1\<lparr>content := (content p1)
                           (flag_base + offset := word_of_int (push_bit bit_index 1 AND 255))\<rparr>)\<rparr>)
                       (unlocked1 @ [grace_name])
                else unlock_loop KNOWN_GRACES flag_base rest
                       (mm1\<lparr>last_error := WriteFailedAt (flag_base + offset)\<rparr>) unlocked1)"
proof -
  from unlock_loop_pm [OF assms(2), of KNOWN_GRACES flag_base before unlocked] assms(4)
  obtain p1 where p1: "pm mm1 = Some p1" "readable p1 = readable p" "writable p1 = writable p"
    by auto
  from assms(1) have dom: "grace_name \<in> dom KNOWN_GRACES" by auto
  from p1 assms(3) have rb: "read_byte mm1 (flag_base + offset) = 0"
    by (simp add: read_byte_def)
  have "unlock_loop KNOWN_GRACES flag_base ((grace_name, True) # rest) mm1 unlocked1
          = (if writable p (flag_base + offset)
                then unlock_loop KNOWN_GRACES flag_base rest
                       (mm1\<lparr>pm := Some (p1\<lparr>content := (content p1)
                           (flag_base + offset := word_of_int (push_bit bit_index 1 AND 255))\<rparr>)\<rparr>)
                       (unlocked1 @ [grace_name])
                else unlock_loop KNOWN_GRACES flag_base rest
                       (mm1\<lparr>last_error := WriteFailedAt (flag_base + offset)\<rparr>) unlocked1)"
    using dom assms(1) rb p1 by (simp add: Let_def write_byte_def)
  with p1(1) assms(4) show ?thesis by (simp add: unlock_loop_append)
qed

text \<open>
  C2, amended: for a ticked, known flag at any position of the request, if reading the
  byte at \<open>flag_base + offset\<close> fails, the failure is recorded in no list (the name ends
  up in \<open>unlocked\<close> or nowhere), no byte of the process other than that flag's own and
  nothing of the module's base and size is changed for it, and the loop goes on with the
  remaining flags. What is written to the flag's own byte is left out here.
\<close>

theorem unlock_read_failure_continues:
  assumes "KNOWN_GRACES grace_name = Some (offset, bit_index)"
    and "pm mm = Some p" and "\<not> readable p (flag_base + offset)"
    and "unlock_loop KNOWN_GRACES flag_base before mm unlocked = (unlocked1, mm1)"
  shows "\<exists>p1 p2 mm2 unlocked2.
           pm mm1 = Some p1 \<and> pm mm2 = Some p2
           \<and> unlock_loop KNOWN_GRACES flag_base (before @ (grace_name, True) # rest) mm unlocked
               = unlock_loop KNOWN_GRACES flag_base rest mm2 unlocked2
           \<and> (unlocked2 = unlocked1 \<or> unlocked2 = unlocked1 @ [grace_name])
           \<and> (\<forall>a. a \<noteq> flag_base + offset \<longrightarrow> content p2 a = content p1 a)
           \<and> readable p2 = readable p1 \<and> writable p2 = writable p1
           \<and> module_base mm2 = module_base mm1 \<and> module_size mm2 = module_size mm1"
proof -
  from unlock_read_failure [OF assms, of rest] obtain p1 where
    p1: "pm mm1 = Some p1" and
    step: "unlock_loop KNOWN_GRACES flag_base (before @ (grace_name, True) # rest) mm unlocked
             = (if writable p (flag_base + offset)
                then unlock_loop KNOWN_GRACES flag_base rest
                       (mm1\<lparr>pm := Some (p1\<lparr>content := (content p1)
                           (flag_base + offset := word_of_int (push_bit bit_index 1 AND 255))\<rparr>)\<rparr>)
                       (unlocked1 @ [grace_name])
                else unlock_loop KNOWN_GRACES flag_base rest
                       (mm1\<lparr>last_error := WriteFailedAt (flag_base + offset)\<rparr>) unlocked1)"
    by blast
  show ?thesis
  proof (cases "writable p (flag_base + offset)")
    case True
    let ?p2 = "p1\<lparr>content := (content p1)
                 (flag_base + offset := word_of_int (push_bit bit_index 1 AND 255))\<rparr>"
    let ?mm2 = "mm1\<lparr>pm := Some ?p2\<rparr>"
    from True step have "unlock_loop KNOWN_GRACES flag_base (before @ (grace_name, True) # rest) mm unlocked
             = unlock_loop KNOWN_GRACES flag_base rest ?mm2 (unlocked1 @ [grace_name])" by simp
    with p1 show ?thesis
      by (intro exI [of _ p1] exI [of _ ?p2] exI [of _ ?mm2] exI [of _ "unlocked1 @ [grace_name]"])
        simp
  next
    case False
    let ?mm2 = "mm1\<lparr>last_error := WriteFailedAt (flag_base + offset)\<rparr>"
    from False step have "unlock_loop KNOWN_GRACES flag_base (before @ (grace_name, True) # rest) mm unlocked
             = unlock_loop KNOWN_GRACES flag_base rest ?mm2 unlocked1" by simp
    with p1 show ?thesis
      by (intro exI [of _ p1] exI [of _ p1] exI [of _ ?mm2] exI [of _ unlocked1]) simp
  qed
qed

theorem unlock_read_failure_continues_witness:
  "\<exists>p1 p2 mm2 unlocked2.
     pm unreadable_game = Some p1 \<and> pm mm2 = Some p2
     \<and> unlock_loop (map_of LIMGRAVE_GRACES) 0x10000
          ([] @ (''The First Step'', True) # [(''Gatefront'', True)]) unreadable_game []
         = unlock_loop (map_of LIMGRAVE_GRACES) 0x10000 [(''Gatefront'', True)] mm2 unlocked2
     \<and> (unlocked2 = [] \<or> unlocked2 = [] @ [''The First Step''])
     \<and> content p2 (0x10000 + 0xCBF) = content p1 (0x10000 + 0xCBF)
     \<and> ''Gatefront'' \<in> set (fst (unlock_loop (map_of LIMGRAVE_GRACES) 0x10000
          ([] @ (''The First Step'', True) # [(''Gatefront'', True)]) unreadable_game []))"
proof -
  obtain p where p: "pm unreadable_game = Some p" "\<not> readable p (0x10000 + 0xCBE)"
    by (simp add: unreadable_game_def)
  have nil: "unlock_loop (map_of LIMGRAVE_GRACES) 0x10000 [] unreadable_game []
               = ([], unreadable_game)" by simp
  have gate: "''Gatefront'' \<in> set (fst (unlock_loop (map_of LIMGRAVE_GRACES) 0x10000
          ([] @ (''The First Step'', True) # [(''Gatefront'', True)]) unreadable_game []))"
    by (simp add: unreadable_game_def limgrave_lookup domI read_byte_def write_byte_def Let_def)
  from unlock_read_failure_continues [OF limgrave_lookup(1) p(1) p(2) nil,
      of "[(''Gatefront'', True)]"]
  obtain p1 p2 mm2 unlocked2 where
    "pm unreadable_game = Some p1" "pm mm2 = Some p2"
    "unlock_loop (map_of LIMGRAVE_GRACES) 0x10000
          ([] @ (''The First Step'', True) # [(''Gatefront'', True)]) unreadable_game []
         = unlock_loop (map_of LIMGRAVE_GRACES) 0x10000 [(''Gatefront'', True)] mm2 unlocked2"
    "unlocked2 = [] \<or> unlocked2 = [] @ [''The First Step'']"
    "\<forall>a. a \<noteq> 0x10000 + 0xCBE \<longrightarrow> content p2 a = content p1 a"
    by blast
  moreover from this(5) have "content p2 (0x10000 + 0xCBF) = content p1 (0x10000 + 0xCBF)"
    by simp
  ultimately show ?thesis using gate by blast
qed

text \<open>
  C5, as stated: with three requested flags of which the second cannot be written,
  \<open>unlocked\<close> holds the first and the third name and \<open>writeFailed\<close> holds the second.
  The code's report is the message box, which names the unlocked graces only: with the
  write of "Gatefront" failing it is the same message as when "Gatefront" is not
  requested at all. No part of the report holds the name whose write failed.
\<close>

theorem unlock_report_omits_failed_write:
  "fst (unlock_selected_graces (map_of LIMGRAVE_GRACES) (flag_tool True))
     = InfoUnlocked 2 [''The First Step'', ''Seaside Ruins'']
   \<and> fst (unlock_selected_graces (map_of LIMGRAVE_GRACES) (flag_tool False))
     = InfoUnlocked 2 [''The First Step'', ''Seaside Ruins'']"
proof -
  have att: "is_attached (memory (flag_tool g))" for g
    by (simp add: is_attached_def flag_tool_def)
  have boxes: "grace_checkboxes (flag_tool g) = [(''The First Step'', True), (''Gatefront'', g),
                          (''Seaside Ruins'', True)]" for g
    by (simp add: flag_tool_def)
  have mem: "memory (flag_tool g) = \<lparr>pm = Some flag_game, module_base = 4096, module_size = 10,
      process_id = 1, process_name = ''eldenring.exe'', last_error = NoError\<rparr>" for g
    by (simp add: flag_tool_def)
  have run: "fst (unlock_loop (map_of LIMGRAVE_GRACES) 0x10000 (grace_checkboxes (flag_tool g))
               (memory (flag_tool g)) []) = [''The First Step'', ''Seaside Ruins'']" for g
    unfolding boxes mem
    by (simp add: limgrave_lookup domI flag_game_def read_byte_def write_byte_def Let_def)
  have msg: "fst (unlock_selected_graces (map_of LIMGRAVE_GRACES) (flag_tool g))
     = InfoUnlocked 2 [''The First Step'', ''Seaside Ruins'']" for g
  proof -
    obtain u m where r: "unlock_loop (map_of LIMGRAVE_GRACES) 0x10000
        (grace_checkboxes (flag_tool g)) (memory (flag_tool g)) [] = (u, m)"
      by (cases "unlock_loop (map_of LIMGRAVE_GRACES) 0x10000
        (grace_checkboxes (flag_tool g)) (memory (flag_tool g)) []")
    with run [of g] have u: "u = [''The First Step'', ''Seaside Ruins'']" by simp
    show ?thesis
      unfolding unlock_selected_graces_def Let_def flag_base_resolved
      using att [of g] r u by simp
  qed
  show ?thesis by (simp only: msg)
qed

text \<open>
  C5, amended: the loop is not transactional. With three requested, known flags of which
  the second cannot be written and the other two can, the remaining flag is still
  processed and \<open>unlocked\<close> is exactly the first and the third name, in this order; of
  the failed write only the address is kept, in \<^verbatim>\<open>last_error\<close>.
\<close>

theorem unlock_partial_failure:
  assumes "pm mm = Some p"
    and "KNOWN_GRACES n1 = Some (o1, b1)" and "KNOWN_GRACES n2 = Some (o2, b2)"
    and "KNOWN_GRACES n3 = Some (o3, b3)"
    and "writable p (flag_base + o1)" and "\<not> writable p (flag_base + o2)"
    and "writable p (flag_base + o3)"
  shows "fst (unlock_loop KNOWN_GRACES flag_base [(n1, True), (n2, True), (n3, True)] mm [])
           = [n1, n3]
       \<and> last_error (snd (unlock_loop KNOWN_GRACES flag_base
                              [(n1, True), (n2, True), (n3, True)] mm []))
           = WriteFailedAt (flag_base + o2)"
proof -
  from assms(2,3,4) have dom: "n1 \<in> dom KNOWN_GRACES" "n2 \<in> dom KNOWN_GRACES" "n3 \<in> dom KNOWN_GRACES"
    by auto
  show ?thesis
    using assms dom by (simp add: Let_def write_byte_def)
qed

theorem unlock_partial_failure_witness:
  "fst (unlock_loop (map_of LIMGRAVE_GRACES) 0x10000
          [(''The First Step'', True), (''Gatefront'', True), (''Seaside Ruins'', True)]
          (memory (flag_tool True)) [])
     = [''The First Step'', ''Seaside Ruins'']
   \<and> last_error (snd (unlock_loop (map_of LIMGRAVE_GRACES) 0x10000
          [(''The First Step'', True), (''Gatefront'', True), (''Seaside Ruins'', True)]
          (memory (flag_tool True)) []))
     = WriteFailedAt (0x10000 + 0xCBF)"
proof -
  have p: "pm (memory (flag_tool True)) = Some flag_game" by (simp add: flag_tool_def)
  show ?thesis
    by (rule unlock_partial_failure [OF p limgrave_lookup])
      (simp_all add: flag_game_def)
qed

end
